theory Spec2Isabelle
  imports Main
begin

section \<open>Number BINGO: the session document (models/BingoGameSession)\<close>

text \<open>
  Player identifiers (Mongo ObjectIds) are opaque comparable tokens, modelled as
  naturals. A \<open>Date\<close> is a millisecond timestamp; every \<open>new Date()\<close> of the source is
  the parameter \<open>now\<close> of the operation that takes it.
\<close>

datatype status = Preparing | Ready | Active | Paused | Completed

datatype pattern = AnyLine | Horizontal | Vertical | Diagonal | FourCorners | FullHouse

datatype markingMode = Auto | Manual

text \<open>\<open>bingoCardSchema\<close>: \<open>grid\<close> and \<open>marked\<close> are indexed \<open>[col][row]\<close>.\<close>

record bingoCard =
  player :: nat
  cardNumber :: nat
  grid :: "int list list"
  marked :: "bool list list"

text \<open>\<open>calledNumberSchema\<close>.\<close>

record calledNumber =
  number :: int
  calledAt :: nat

text \<open>\<open>winnerSchema\<close>.\<close>

record winner =
  w_player :: nat
  w_cardNumber :: nat
  w_pattern :: pattern
  w_completedAt :: nat
  winningCard :: "int list list"
  markedCells :: "bool list list"

text \<open>\<open>bingoGameSessionSchema\<close>, with the fields the operations below read or write.\<close>

record bingoGameSession =
  gameId :: string
  maxPlayers :: nat
  status :: status
  winningPattern :: pattern
  autoCallInterval :: nat
  markingMode :: markingMode
  players :: "nat list"
  bingoCards :: "bingoCard list"
  calledNumbers :: "calledNumber list"
  availableCards :: "nat list"
  cardAssignments :: "nat \<rightharpoonup> nat"
  currentNumber :: "int option"
  winners :: "winner list"
  startedAt :: "nat option"
  completedAt :: "nat option"

subsection \<open>Marking\<close>

text \<open>The assignment \<open>card.marked[col][row] = true\<close>.\<close>

definition setMarked :: "nat \<Rightarrow> nat \<Rightarrow> bool list list \<Rightarrow> bool list list" where
  "setMarked col row m = m[col := (m ! col)[row := True]]"

text \<open>
  The two nested loops \<open>for col < 5, for row < 5\<close> shared by \<open>markNumberOnAllCards\<close>
  and \<open>markNumberOnPlayerCard\<close>: a cell whose grid value is the number gets marked.
\<close>

definition markRow :: "int \<Rightarrow> nat \<Rightarrow> nat \<Rightarrow> bingoCard \<Rightarrow> bingoCard" where
  "markRow n col row c =
     (if grid c ! col ! row = n
      then c\<lparr>marked := setMarked col row (marked c)\<rparr> else c)"

definition markCard :: "int \<Rightarrow> bingoCard \<Rightarrow> bingoCard" where
  "markCard n c = fold (\<lambda>col. fold (markRow n col) [0..<5]) [0..<5] c"

definition markNumberOnAllCards :: "int \<Rightarrow> bingoGameSession \<Rightarrow> bingoGameSession" where
  "markNumberOnAllCards n s = s\<lparr>bingoCards := map (markCard n) (bingoCards s)\<rparr>"

subsection \<open>Number calling\<close>

text \<open>
  \<open>crypto.randomInt(min, max)\<close> returns an integer \<open>n\<close> with \<open>min \<le> n < max\<close> chosen by
  the system's random source. The choice is the parameter \<open>e\<close> (the entropy consumed);
  every value of the range is the result for some \<open>e\<close>.
\<close>

definition randomInt :: "nat \<Rightarrow> nat \<Rightarrow> nat \<Rightarrow> nat" where
  "randomInt lo hi e = lo + e mod (hi - lo)"

text \<open>The list \<open>remainingNumbers\<close> that \<open>callNumber\<close> builds: 1..75 without the called ones.\<close>

definition remainingNumbers :: "bingoGameSession \<Rightarrow> int list" where
  "remainingNumbers s =
     (let calledNumbersList = map number (calledNumbers s)
      in filter (\<lambda>i. i \<notin> set calledNumbersList) [1..75])"

text \<open>\<open>callNumber\<close>: \<open>None\<close> is the source's \<open>null\<close>.\<close>

definition callNumber :: "nat \<Rightarrow> nat \<Rightarrow> bingoGameSession \<Rightarrow> int option \<times> bingoGameSession" where
  "callNumber e now s =
     (let remaining = remainingNumbers s in
      if length remaining = 0 then (None, s)
      else
        let randomIndex = randomInt 0 (length remaining) e;
            calledNum = remaining ! randomIndex;
            s1 = s\<lparr>calledNumbers := calledNumbers s @ [\<lparr>number = calledNum, calledAt = now\<rparr>],
                   currentNumber := Some calledNum\<rparr>;
            s2 = (if markingMode s1 = Auto then markNumberOnAllCards calledNum s1 else s1)
        in (Some calledNum, s2))"

text \<open>
  Repeated calls against the same session: the results of the successive calls, in
  order, and the session they leave. Each call has its own entropy and clock reading.
\<close>

fun callNumbers ::
  "(nat \<times> nat) list \<Rightarrow> bingoGameSession \<Rightarrow> int option list \<times> bingoGameSession" where
  "callNumbers [] s = ([], s)"
| "callNumbers ((e, now) # es) s =
     (case callNumber e now s of
        (r, s') \<Rightarrow> (case callNumbers es s' of (rs, s'') \<Rightarrow> (r # rs, s'')))"

subsection \<open>Manual marking (\<open>markNumberOnPlayerCard\<close>)\<close>

text \<open>\<open>getPlayerCard\<close>: the first card whose owner is the player, or \<open>undefined\<close>.\<close>

definition getPlayerCard :: "nat \<Rightarrow> bingoGameSession \<Rightarrow> bingoCard option" where
  "getPlayerCard playerId s = find (\<lambda>c. player c = playerId) (bingoCards s)"

text \<open>
  The card \<open>find\<close> returns is the array element itself, so writing to it changes the first
  element that satisfies the predicate.
\<close>

fun updateFound :: "('a \<Rightarrow> bool) \<Rightarrow> 'a \<Rightarrow> 'a list \<Rightarrow> 'a list" where
  "updateFound p y [] = []"
| "updateFound p y (x # xs) = (if p x then y # xs else x # updateFound p y xs)"

text \<open>The loop body of \<open>markNumberOnPlayerCard\<close>, which also raises the flag \<open>marked\<close>.\<close>

definition markRowFlag :: "int \<Rightarrow> nat \<Rightarrow> nat \<Rightarrow> bingoCard \<times> bool \<Rightarrow> bingoCard \<times> bool" where
  "markRowFlag n col row cf =
     (if grid (fst cf) ! col ! row = n
      then ((fst cf)\<lparr>marked := setMarked col row (marked (fst cf))\<rparr>, True) else cf)"

definition markNumberOnPlayerCard ::
  "nat \<Rightarrow> int \<Rightarrow> bingoGameSession \<Rightarrow> bool \<times> bingoGameSession" where
  "markNumberOnPlayerCard playerId n s =
     (case getPlayerCard playerId s of
        None \<Rightarrow> (False, s)
      | Some playerCard \<Rightarrow>
          let cf = fold (\<lambda>col. fold (markRowFlag n col) [0..<5]) [0..<5] (playerCard, False)
          in (snd cf,
              s\<lparr>bingoCards := updateFound (\<lambda>c. player c = playerId) (fst cf) (bingoCards s)\<rparr>))"

subsection \<open>Winning patterns\<close>

definition hasHorizontalLine :: "bool list list \<Rightarrow> bool" where
  "hasHorizontalLine m = list_ex (\<lambda>row. list_all (\<lambda>col. m ! col ! row) [0..<5]) [0..<5]"

definition hasVerticalLine :: "bool list list \<Rightarrow> bool" where
  "hasVerticalLine m = list_ex (\<lambda>col. list_all (\<lambda>row. m ! col ! row) [0..<5]) [0..<5]"

definition hasDiagonalLine :: "bool list list \<Rightarrow> bool" where
  "hasDiagonalLine m =
     (if list_all (\<lambda>i. m ! i ! i) [0..<5] then True
      else list_all (\<lambda>i. m ! (4 - i) ! i) [0..<5])"

definition hasFourCorners :: "bool list list \<Rightarrow> bool" where
  "hasFourCorners m = (m ! 0 ! 0 \<and> m ! 4 ! 0 \<and> m ! 0 ! 4 \<and> m ! 4 ! 4)"

definition hasFullHouse :: "bool list list \<Rightarrow> bool" where
  "hasFullHouse m = list_all (\<lambda>col. list_all (\<lambda>row. m ! col ! row) [0..<5]) [0..<5]"

text \<open>
  The \<open>switch\<close> of \<open>checkForWinners\<close>: the pattern recorded for a card, \<open>None\<close> when
  \<open>isWinner\<close> stays false.
\<close>

definition winningPatternOf :: "pattern \<Rightarrow> bool list list \<Rightarrow> pattern option" where
  "winningPatternOf wp m =
     (case wp of
        AnyLine \<Rightarrow>
          if hasHorizontalLine m then Some Horizontal
          else if hasVerticalLine m then Some Vertical
          else if hasDiagonalLine m then Some Diagonal
          else None
      | Horizontal \<Rightarrow> if hasHorizontalLine m then Some Horizontal else None
      | Vertical \<Rightarrow> if hasVerticalLine m then Some Vertical else None
      | Diagonal \<Rightarrow> if hasDiagonalLine m then Some Diagonal else None
      | FourCorners \<Rightarrow> if hasFourCorners m then Some FourCorners else None
      | FullHouse \<Rightarrow> if hasFullHouse m then Some FullHouse else None)"

text \<open>
  A route loads the session either plainly, with \<open>findOne\<close> alone, or with
  \<open>.populate('winners.player', 'username')\<close>, which puts the user document in the place
  of the player id of every recorded winner. The stored session keeps the ids, so the
  way of loading is a parameter of \<open>checkForWinners\<close>, the one operation that reads the
  player of a recorded winner. \<open>toString()\<close> of an id is the id's hex string;
  \<open>toString()\<close> of a populated user document is the printed document, which is never
  the hex string of an id.
\<close>

datatype loading = Plain | PopulatedWinners

datatype playerText = IdText nat | DocumentText nat

text \<open>\<open>w.player.toString()\<close> for a recorded winner.\<close>

definition winnerPlayerText :: "loading \<Rightarrow> winner \<Rightarrow> playerText" where
  "winnerPlayerText ld w =
     (case ld of Plain \<Rightarrow> IdText (w_player w) | PopulatedWinners \<Rightarrow> DocumentText (w_player w))"

text \<open>
  One round of the \<open>forEach\<close> over the cards: \<open>newWinners\<close> is the accumulator. The
  player of a card is never populated, so \<open>card.player.toString()\<close> is an id string.
\<close>

definition checkCard ::
  "nat \<Rightarrow> pattern \<Rightarrow> playerText list \<Rightarrow> bingoCard \<Rightarrow> winner list \<Rightarrow> winner list" where
  "checkCard now wp existingWinnerIds c newWinners =
     (if IdText (player c) \<in> set existingWinnerIds then newWinners
      else case winningPatternOf wp (marked c) of
             None \<Rightarrow> newWinners
           | Some p \<Rightarrow>
               newWinners @
                 [\<lparr>w_player = player c, w_cardNumber = cardNumber c, w_pattern = p,
                   w_completedAt = now, winningCard = grid c, markedCells = marked c\<rparr>])"

definition checkForWinners :: "loading \<Rightarrow> nat \<Rightarrow> bingoGameSession \<Rightarrow> winner list" where
  "checkForWinners ld now s =
     (let existingWinnerIds = map (winnerPlayerText ld) (winners s)
      in fold (checkCard now (winningPattern s) existingWinnerIds) (bingoCards s) [])"

section \<open>Number BINGO: the routes and the auto-call timer (routes/bingo)\<close>

text \<open>
  The server state a request sees: \<open>doc\<close> is the document that
  \<open>BingoGameSession.findOne({ gameId })\<close> returns for the requested id (\<open>None\<close> when there
  is none) and that \<open>game.save()\<close> replaces; \<open>autoCallIntervals\<close> is the set of keys of the
  map of that name, the games with a live interval timer. A request that returns before
  \<open>save\<close> leaves the document as it was.
\<close>

record server =
  doc :: "bingoGameSession option"
  autoCallIntervals :: "string set"

text \<open>\<open>res.status(code).json(...)\<close>: the status code and the message or error text.\<close>

datatype response = Response nat string

definition stopAutoCallNumbers :: "string \<Rightarrow> string set \<Rightarrow> string set" where
  "stopAutoCallNumbers gid timers = (if gid \<in> timers then timers - {gid} else timers)"


text \<open>\<open>POST /games/:gameId/join\<close>, for the authenticated user \<open>userId\<close>.\<close>

definition joinRoute :: "nat \<Rightarrow> server \<Rightarrow> response \<times> server" where
  "joinRoute userId srv =
     (case doc srv of
        None \<Rightarrow> (Response 404 ''Game not found'', srv)
      | Some game \<Rightarrow>
          if status game \<noteq> Ready then (Response 400 ''Game is not ready to join'', srv)
          else if length (players game) \<ge> maxPlayers game then (Response 400 ''Game is full'', srv)
          else if list_ex (\<lambda>p. p = userId) (players game)
            then (Response 400 ''Already joined this game'', srv)
          else (Response 200 ''Successfully joined game'',
                srv\<lparr>doc := Some (game\<lparr>players := players game @ [userId]\<rparr>)\<rparr>))"


text \<open>
  \<open>!calledNumber\<close> holds for \<open>null\<close> and for the number 0.
\<close>

definition falsy :: "int option \<Rightarrow> bool" where
  "falsy r = (case r of None \<Rightarrow> True | Some n \<Rightarrow> n = 0)"

text \<open>
  What every caller of \<open>checkForWinners\<close> does when \<open>newWinners.length > 0\<close>: push
  each winner, set the status and the completion time.
\<close>

definition recordWinners :: "nat \<Rightarrow> winner list \<Rightarrow> bingoGameSession \<Rightarrow> bingoGameSession" where
  "recordWinners now newWinners game =
     (if length newWinners > 0
      then game\<lparr>winners := winners game @ newWinners, status := Completed,
                completedAt := Some now\<rparr>
      else game)"

text \<open>
  \<open>POST /games/:gameId/call-number\<close>, the manual trigger. It loads the session with
  \<open>populate('winners.player', 'username')\<close>.
\<close>

definition callNumberRoute :: "nat \<Rightarrow> nat \<Rightarrow> server \<Rightarrow> response \<times> server" where
  "callNumberRoute e now srv =
     (case doc srv of
        None \<Rightarrow> (Response 404 ''Game not found'', srv)
      | Some game \<Rightarrow>
          if status game \<noteq> Active \<and> status game \<noteq> Paused
            then (Response 400 ''Game must be active or paused'', srv)
          else
            case callNumber e now game of
              (calledNum, game1) \<Rightarrow>
                if falsy calledNum then (Response 400 ''All numbers have been called'', srv)
                else
                  let newWinners = checkForWinners PopulatedWinners now game1;
                      game2 = recordWinners now newWinners game1
                  in (Response 200 ''Number called successfully'',
                      \<lparr>doc = Some game2,
                       autoCallIntervals =
                         (if length newWinners > 0
                          then stopAutoCallNumbers (gameId game2) (autoCallIntervals srv)
                          else autoCallIntervals srv)\<rparr>))"

text \<open>
  One firing of the interval callback of \<open>startAutoCallNumbers(gameId, interval)\<close>,
  which loads the session with \<open>populate('winners.player', 'username')\<close>. The
  outcome names the branch taken and what it emits: nothing, the event
  \<open>bingoGameCompleted\<close> with reason \<open>All numbers called\<close>, or \<open>bingoNumberCalled\<close> with
  the number and the new winners.
\<close>

datatype tickOutcome = TimerCancelled | AllNumbersCalled | NumberCalled "int option" "winner list"

definition autoCallTick :: "string \<Rightarrow> nat \<Rightarrow> nat \<Rightarrow> server \<Rightarrow> tickOutcome \<times> server" where
  "autoCallTick gid e now srv =
     (case doc srv of
        None \<Rightarrow>
          (TimerCancelled,
           srv\<lparr>autoCallIntervals := stopAutoCallNumbers gid (autoCallIntervals srv)\<rparr>)
      | Some game \<Rightarrow>
          if status game \<noteq> Active
            then (TimerCancelled,
                  srv\<lparr>autoCallIntervals := stopAutoCallNumbers gid (autoCallIntervals srv)\<rparr>)
          else
            case callNumber e now game of
              (calledNum, game1) \<Rightarrow>
                if falsy calledNum
                  then (AllNumbersCalled,
                        \<lparr>doc = Some (game1\<lparr>status := Completed, completedAt := Some now\<rparr>),
                         autoCallIntervals = stopAutoCallNumbers gid (autoCallIntervals srv)\<rparr>)
                else
                  let newWinners = checkForWinners PopulatedWinners now game1;
                      game2 = recordWinners now newWinners game1
                  in (NumberCalled calledNum newWinners,
                      \<lparr>doc = Some game2,
                       autoCallIntervals =
                         (if length newWinners > 0
                          then stopAutoCallNumbers gid (autoCallIntervals srv)
                          else autoCallIntervals srv)\<rparr>))"

text \<open>\<open>POST /games/:gameId/stop\<close>.\<close>

definition stopRoute :: "nat \<Rightarrow> server \<Rightarrow> response \<times> server" where
  "stopRoute now srv =
     (case doc srv of
        None \<Rightarrow> (Response 404 ''Game not found'', srv)
      | Some game \<Rightarrow>
          (Response 200 ''Game stopped successfully'',
           \<lparr>doc = Some (game\<lparr>status := Completed, completedAt := Some now\<rparr>),
            autoCallIntervals = stopAutoCallNumbers (gameId game) (autoCallIntervals srv)\<rparr>))"

text \<open>
  \<open>POST /games/:gameId/mark-number\<close>, for the authenticated user \<open>userId\<close> and the
  \<open>number\<close> of the request body. It loads the session plainly.
\<close>

definition markNumberRoute :: "nat \<Rightarrow> int \<Rightarrow> nat \<Rightarrow> server \<Rightarrow> response \<times> server" where
  "markNumberRoute userId n now srv =
     (case doc srv of
        None \<Rightarrow> (Response 404 ''Game not found'', srv)
      | Some game \<Rightarrow>
          if status game \<noteq> Active \<and> status game \<noteq> Paused
            then (Response 400 ''Game is not active'', srv)
          else if markingMode game \<noteq> Manual
            then (Response 400 ''Game is not in manual marking mode'', srv)
          else if \<not> list_ex (\<lambda>p. p = userId) (players game)
            then (Response 400 ''You are not a player in this game'', srv)
          else if n = 0 \<or> n < 1 \<or> n > 75 then (Response 400 ''Invalid number'', srv)
          else if n \<notin> set (map number (calledNumbers game))
            then (Response 400 ''This number has not been called yet'', srv)
          else
            case markNumberOnPlayerCard userId n game of
              (wasMarked, game1) \<Rightarrow>
                if \<not> wasMarked then (Response 400 ''Number not found on your card'', srv)
                else
                  let newWinners = checkForWinners Plain now game1;
                      game2 = recordWinners now newWinners game1
                  in (Response 200 ''Number marked successfully'', srv\<lparr>doc := Some game2\<rparr>))"

section \<open>The deterministic card generator (utils/gridGenerator)\<close>

text \<open>
  \<open>createSeededRandom\<close>: the state is \<open>currentSeed\<close>. \<open>next()\<close> replaces it by
  \<open>(currentSeed * 9301 + 49297) % 233280\<close> and returns \<open>currentSeed / 233280\<close>;
  \<open>nextInt(min, max)\<close> is \<open>Math.floor(next() * (max - min)) + min\<close>. The quotient is taken
  exactly here. Each function returns the value and the new seed.
\<close>

definition nextSeed :: "nat \<Rightarrow> nat" where
  "nextSeed currentSeed = (currentSeed * 9301 + 49297) mod 233280"

definition nextInt :: "nat \<Rightarrow> nat \<Rightarrow> nat \<Rightarrow> nat \<times> nat" where
  "nextInt lo hi currentSeed =
     (let seed1 = nextSeed currentSeed in ((seed1 * (hi - lo)) div 233280 + lo, seed1))"

text \<open>
  The shuffle loop \<open>for (i = length - 1; i > 0; i--)\<close>, entered at index \<open>i\<close>: draw
  \<open>j = nextInt(0, i + 1)\<close> and swap the elements at \<open>i\<close> and \<open>j\<close>.
\<close>

fun shuffle :: "nat \<Rightarrow> int list \<Rightarrow> nat \<Rightarrow> int list \<times> nat" where
  "shuffle 0 xs currentSeed = (xs, currentSeed)"
| "shuffle (Suc k) xs currentSeed =
     (case nextInt 0 (Suc k + 1) currentSeed of
        (j, seed1) \<Rightarrow> shuffle k (xs[Suc k := xs ! j, j := xs ! Suc k]) seed1)"

definition columnRanges :: "(int \<times> int) list" where
  "columnRanges = [(1, 15), (16, 30), (31, 45), (46, 60), (61, 75)]"

text \<open>One round of the loop over the columns: the column and the seed it leaves.\<close>

definition generateColumn :: "nat \<Rightarrow> nat \<Rightarrow> int list \<times> nat" where
  "generateColumn col currentSeed =
     (case columnRanges ! col of
        (lo, hi) \<Rightarrow>
          let availableNumbers = [lo..hi] in
          case shuffle (length availableNumbers - 1) availableNumbers currentSeed of
            (shuffled, seed1) \<Rightarrow>
              (map (\<lambda>row. if col = 2 \<and> row = 2 then 0 else shuffled ! row) [0..<5], seed1))"

fun generateColumns :: "nat list \<Rightarrow> nat \<Rightarrow> int list list" where
  "generateColumns [] currentSeed = []"
| "generateColumns (col # cols) currentSeed =
     (case generateColumn col currentSeed of
        (numbers, seed1) \<Rightarrow> numbers # generateColumns cols seed1)"

definition generateDeterministicBingoCard :: "nat \<Rightarrow> int list list" where
  "generateDeterministicBingoCard cardNum = generateColumns [0..<5] cardNum"

section \<open>Number BINGO: preparing a session and choosing a card\<close>

text \<open>
  The marking matrix \<open>addPlayerCard\<close> gives a new card: all false but the centre.
\<close>

definition freshMarked :: "bool list list" where
  "freshMarked = (replicate 5 (replicate 5 False))[2 := (replicate 5 False)[2 := True]]"

text \<open>
  \<open>addPlayerCard\<close>. The keys of \<open>cardAssignments\<close> are the decimal strings of the card
  numbers, modelled by the numbers themselves.
\<close>

definition addPlayerCard :: "nat \<Rightarrow> nat \<Rightarrow> bingoGameSession \<Rightarrow> bingoGameSession" where
  "addPlayerCard playerId cardNum s =
     s\<lparr>bingoCards := bingoCards s @
          [\<lparr>player = playerId, cardNumber = cardNum,
            grid = generateDeterministicBingoCard cardNum, marked = freshMarked\<rparr>],
       availableCards := filter (\<lambda>c. c \<noteq> cardNum) (availableCards s),
       cardAssignments := (cardAssignments s)(cardNum \<mapsto> playerId)\<rparr>"

definition initializeAvailableCards :: "nat \<Rightarrow> bingoGameSession \<Rightarrow> bingoGameSession" where
  "initializeAvailableCards totalCards s = s\<lparr>availableCards := [1..<totalCards + 1]\<rparr>"

definition isCardAvailable :: "nat \<Rightarrow> bingoGameSession \<Rightarrow> bool" where
  "isCardAvailable cardNum s = (cardNum \<in> set (availableCards s))"

text \<open>\<open>POST /games/:gameId/prepare\<close>.\<close>

definition prepareRoute :: "server \<Rightarrow> response \<times> server" where
  "prepareRoute srv =
     (case doc srv of
        None \<Rightarrow> (Response 404 ''Game not found'', srv)
      | Some game \<Rightarrow>
          if status game \<noteq> Preparing then (Response 400 ''Game is not in preparing state'', srv)
          else (Response 200 ''Game is now ready for players to join'',
                srv\<lparr>doc := Some (initializeAvailableCards 100 (game\<lparr>status := Ready\<rparr>))\<rparr>))"

text \<open>
  \<open>POST /games/:gameId/select-card\<close>, for the authenticated user \<open>userId\<close> and a
  \<open>cardNumber\<close> of type number in the request body; \<open>!cardNumber\<close> holds for 0.
\<close>

definition selectCardRoute :: "nat \<Rightarrow> nat \<Rightarrow> server \<Rightarrow> response \<times> server" where
  "selectCardRoute userId cardNum srv =
     (case doc srv of
        None \<Rightarrow> (Response 404 ''Game not found'', srv)
      | Some game \<Rightarrow>
          if status game \<noteq> Ready then (Response 400 ''Game is not ready'', srv)
          else if \<not> list_ex (\<lambda>p. p = userId) (players game)
            then (Response 400 ''You have not joined this game'', srv)
          else if getPlayerCard userId game \<noteq> None
            then (Response 400 ''You already have a card'', srv)
          else if cardNum = 0 then (Response 400 ''Invalid card number'', srv)
          else if \<not> isCardAvailable cardNum game then (Response 400 ''Card not available'', srv)
          else (Response 200 ''Card selected successfully'',
                srv\<lparr>doc := Some (addPlayerCard userId cardNum game)\<rparr>))"

section \<open>Letter BINGO (models/LetterBingoGameSession, routes/letterBingo)\<close>

text \<open>A letter is a one-character string, modelled as a \<open>char\<close>; a word is a \<open>string\<close>.\<close>

datatype letterStatus = LPreparing | LReady | Playing | LCompleted

record playerWord =
  pw_player :: nat
  word :: string
  matchedLetters :: "char list"
  isWinner :: bool

record drawnLetter =
  letter :: char
  drawnAt :: nat

record winningWord =
  ww_player :: nat
  ww_word :: string

record letterBingoGameSession =
  l_gameId :: string
  l_maxPlayers :: nat
  wordLength :: nat
  l_status :: letterStatus
  l_players :: "nat list"
  playerWords :: "playerWord list"
  drawnLetters :: "drawnLetter list"
  remainingLetters :: "char list"
  l_winners :: "nat list"
  winningWords :: "winningWord list"
  l_startedAt :: "nat option"
  l_completedAt :: "nat option"

definition initializeLetters :: "letterBingoGameSession \<Rightarrow> letterBingoGameSession" where
  "initializeLetters s =
     s\<lparr>remainingLetters := ''ABCDEFGHIJKLMNOPQRSTUVWXYZ'', drawnLetters := []\<rparr>"

text \<open>
  The body of the \<open>forEach\<close> of \<open>checkForWinners(newLetter)\<close> for one player word: the
  word as the round leaves it, and whether the round declared it a winner.
\<close>

definition checkWord :: "char \<Rightarrow> playerWord \<Rightarrow> playerWord \<times> bool" where
  "checkWord newLetter pw =
     (if \<not> isWinner pw \<and> newLetter \<in> set (word pw) then
        let pw1 = (if newLetter \<notin> set (matchedLetters pw)
                   then pw\<lparr>matchedLetters := matchedLetters pw @ [newLetter]\<rparr> else pw);
            allMatched = list_all (\<lambda>l. l \<in> set (matchedLetters pw1)) (word pw1)
        in if allMatched then (pw1\<lparr>isWinner := True\<rparr>, True) else (pw1, False)
      else (pw, False))"

text \<open>
  The whole \<open>forEach\<close>, over the session: each round rewrites its player word in place,
  pushes to \<open>winners\<close> and \<open>winningWords\<close> and raises \<open>hasWinner\<close>. The accumulator is the
  player words already visited, the session's two winner lists and the flag.
\<close>

fun checkWords ::
  "char \<Rightarrow> playerWord list \<Rightarrow> playerWord list \<times> nat list \<times> winningWord list \<times> bool \<Rightarrow>
   playerWord list \<times> nat list \<times> winningWord list \<times> bool" where
  "checkWords newLetter [] acc = acc"
| "checkWords newLetter (pw # pws) (visited, ws, wws, hasWinner) =
     (case checkWord newLetter pw of
        (pw1, won) \<Rightarrow>
          if won
          then checkWords newLetter pws
                 (visited @ [pw1], ws @ [pw_player pw1],
                  wws @ [\<lparr>ww_player = pw_player pw1, ww_word = word pw1\<rparr>], True)
          else checkWords newLetter pws (visited @ [pw1], ws, wws, hasWinner))"

definition letterCheckForWinners ::
  "char \<Rightarrow> nat \<Rightarrow> letterBingoGameSession \<Rightarrow> letterBingoGameSession" where
  "letterCheckForWinners newLetter now s =
     (case checkWords newLetter (playerWords s) ([], l_winners s, winningWords s, False) of
        (pws, ws, wws, hasWinner) \<Rightarrow>
          let s1 = s\<lparr>playerWords := pws, l_winners := ws, winningWords := wws\<rparr>
          in if hasWinner then s1\<lparr>l_status := LCompleted, l_completedAt := Some now\<rparr> else s1)"

text \<open>
  \<open>Math.floor(Math.random() * n)\<close>: \<open>Math.random()\<close> lies in [0, 1), so the index lies in
  \<open>0..n-1\<close>; the choice is the parameter \<open>e\<close>.
\<close>

definition randomIndexBelow :: "nat \<Rightarrow> nat \<Rightarrow> nat" where
  "randomIndexBelow n e = e mod n"

text \<open>\<open>drawLetter\<close>: \<open>None\<close> is the source's \<open>null\<close>; \<open>splice(randomIndex, 1)\<close> removes one element.\<close>

definition drawLetter ::
  "nat \<Rightarrow> nat \<Rightarrow> letterBingoGameSession \<Rightarrow> char option \<times> letterBingoGameSession" where
  "drawLetter e now s =
     (if length (remainingLetters s) = 0 then (None, s)
      else
        let randomIndex = randomIndexBelow (length (remainingLetters s)) e;
            drawn = remainingLetters s ! randomIndex;
            s1 = s\<lparr>remainingLetters :=
                     take randomIndex (remainingLetters s) @
                     drop (Suc randomIndex) (remainingLetters s),
                   drawnLetters := drawnLetters s @ [\<lparr>letter = drawn, drawnAt = now\<rparr>]\<rparr>
        in (Some drawn, letterCheckForWinners drawn now s1))"

text \<open>
  The server state of the letter routes: the session found for the requested id and the
  keys of \<open>letterDrawIntervals\<close>.
\<close>

record letterServer =
  l_doc :: "letterBingoGameSession option"
  letterDrawIntervals :: "string set"

text \<open>
  \<open>toUpperCase\<close> on ASCII text: the letters a to z move to A to Z, every other
  character stays.
\<close>

definition toUpperCase :: "string \<Rightarrow> string" where
  "toUpperCase w =
     map (\<lambda>ch. if ch \<in> set ''abcdefghijklmnopqrstuvwxyz''
               then char_of (of_char ch - (32::nat)) else ch) w"

definition isWordAvailable :: "string \<Rightarrow> nat \<Rightarrow> letterBingoGameSession \<Rightarrow> bool" where
  "isWordAvailable w playerId s =
     (\<not> list_ex (\<lambda>pw. word pw = toUpperCase w \<and> pw_player pw \<noteq> playerId) (playerWords s))"

text \<open>
  \<open>POST /games/:gameId/submit-word\<close>, for the authenticated user \<open>userId\<close>. The test
  \<open>/^[A-Z]+$/\<close> asks for letters A to Z only; the comparison of \<open>chars.length\<close> with the
  size of the set of characters asks for no repeated character.
\<close>

definition submitWordRoute :: "nat \<Rightarrow> string \<Rightarrow> letterServer \<Rightarrow> response \<times> letterServer" where
  "submitWordRoute userId w srv =
     (case l_doc srv of
        None \<Rightarrow> (Response 404 ''Game not found'', srv)
      | Some game \<Rightarrow>
          if \<not> list_ex (\<lambda>p. p = userId) (l_players game)
            then (Response 400 ''You are not in this game'', srv)
          else if l_status game \<noteq> LReady then (Response 400 ''Game is not in ready state'', srv)
          else if w = [] \<or> length w \<noteq> wordLength game
            then (Response 400 ''Word must be exactly wordLength characters'', srv)
          else
            let upperWord = toUpperCase w in
            if \<not> (upperWord \<noteq> [] \<and>
                  list_all (\<lambda>ch. ch \<in> set ''ABCDEFGHIJKLMNOPQRSTUVWXYZ'') upperWord)
              then (Response 400 ''Word must contain only letters'', srv)
            else if length upperWord \<noteq> card (set upperWord)
              then (Response 400 ''Word must have all unique characters'', srv)
            else if \<not> isWordAvailable upperWord userId game
              then (Response 400 ''This word is already taken'', srv)
            else
              (Response 200 ''Word submitted successfully'',
               srv\<lparr>l_doc := Some
                 (game\<lparr>playerWords :=
                    filter (\<lambda>pw. pw_player pw \<noteq> userId) (playerWords game) @
                    [\<lparr>pw_player = userId, word = upperWord, matchedLetters = [],
                      isWinner = False\<rparr>]\<rparr>)\<rparr>))"

text \<open>\<open>POST /games/:gameId/start\<close> of the letter routes.\<close>

definition letterStartRoute :: "nat \<Rightarrow> letterServer \<Rightarrow> response \<times> letterServer" where
  "letterStartRoute now srv =
     (case l_doc srv of
        None \<Rightarrow> (Response 404 ''Game not found'', srv)
      | Some game \<Rightarrow>
          if l_status game \<noteq> LReady then (Response 400 ''Game is not ready to start'', srv)
          else if length (playerWords game) < 2
            then (Response 400 ''At least 2 players must submit words'', srv)
          else
            let game1 = (initializeLetters game)\<lparr>l_status := Playing, l_startedAt := Some now\<rparr>
            in (Response 200 ''Game started successfully'',
                \<lparr>l_doc = Some game1,
                 letterDrawIntervals = insert (l_gameId game1) (letterDrawIntervals srv)\<rparr>))"

text \<open>
  One firing of the interval callback of \<open>startLetterDrawing(gameId, drawSpeed)\<close>, with
  the socket \<open>io\<close> set as \<open>server.js\<close> sets it. A session that is missing or not
  \<open>playing\<close> only clears the interval.
\<close>

definition letterDrawTick :: "string \<Rightarrow> nat \<Rightarrow> nat \<Rightarrow> letterServer \<Rightarrow> letterServer" where
  "letterDrawTick gid e now srv =
     (case l_doc srv of
        None \<Rightarrow> srv\<lparr>letterDrawIntervals := letterDrawIntervals srv - {gid}\<rparr>
      | Some game \<Rightarrow>
          if l_status game \<noteq> Playing
            then srv\<lparr>letterDrawIntervals := letterDrawIntervals srv - {gid}\<rparr>
          else
            (case drawLetter e now game of
               (None, game1) \<Rightarrow>
                 \<lparr>l_doc = Some (game1\<lparr>l_status := LCompleted\<rparr>),
                  letterDrawIntervals = letterDrawIntervals srv - {gid}\<rparr>
             | (Some drawn, game1) \<Rightarrow>
                 \<lparr>l_doc = Some game1,
                  letterDrawIntervals =
                    (if l_status game1 = LCompleted then letterDrawIntervals srv - {gid}
                     else letterDrawIntervals srv)\<rparr>))"

text \<open>The timer firing repeatedly, each firing with its own entropy and clock reading.\<close>

fun letterDrawTicks :: "string \<Rightarrow> (nat \<times> nat) list \<Rightarrow> letterServer \<Rightarrow> letterServer" where
  "letterDrawTicks gid [] srv = srv"
| "letterDrawTicks gid ((e, now) # es) srv = letterDrawTicks gid es (letterDrawTick gid e now srv)"

section \<open>Invariants of reachable sessions\<close>

text \<open>
  The history of a session that only \<open>callNumber\<close> has written: no number twice, every
  number in 1..75.
\<close>

definition poolInv :: "bingoGameSession \<Rightarrow> bool" where
  "poolInv s =
     (distinct (map number (calledNumbers s)) \<and> set (map number (calledNumbers s)) \<subseteq> {1..75})"

text \<open>
  The shape the schema gives a card: \<open>grid\<close> is validated to be 5 by 5 and \<open>marked\<close>
  is created 5 by 5. The loops over \<open>col < 5\<close> and \<open>row < 5\<close> read inside the arrays
  exactly on such cards.
\<close>

definition wfCard :: "bingoCard \<Rightarrow> bool" where
  "wfCard c =
     (length (grid c) = 5 \<and> list_all (\<lambda>column. length column = 5) (grid c) \<and>
      length (marked c) = 5 \<and> list_all (\<lambda>column. length column = 5) (marked c))"

text \<open>
  The roster invariant that \<open>joinRoute\<close> keeps: never more players than \<open>maxPlayers\<close>.
\<close>

definition rosterInv :: "bingoGameSession \<Rightarrow> bool" where
  "rosterInv game = (length (players game) \<le> maxPlayers game)"

text \<open>
  The invariants of a grid session about winners: one card per player, one winner
  entry per player.
\<close>

definition winnersInv :: "bingoGameSession \<Rightarrow> bool" where
  "winnersInv s = (distinct (map player (bingoCards s)) \<and> distinct (map w_player (winners s)))"

text \<open>
  The invariant of a letter session: one word per player (\<open>submit-word\<close> replaces a
  player's earlier word), one winner entry per player, and the word of every recorded
  winner carries the flag \<open>isWinner\<close> (\<open>checkForWinners\<close> sets both together).
\<close>

definition letterInv :: "letterBingoGameSession \<Rightarrow> bool" where
  "letterInv s =
     (distinct (map pw_player (playerWords s)) \<and> distinct (l_winners s) \<and>
      list_all (\<lambda>pw. pw_player pw \<in> set (l_winners s) \<longrightarrow> isWinner pw) (playerWords s))"

text \<open>
  The player words that a newly drawn letter completes: those for which the round of
  \<open>checkForWinners\<close> declares a winner.
\<close>

definition completedBy :: "char \<Rightarrow> playerWord list \<Rightarrow> playerWord list" where
  "completedBy newLetter pws = filter (\<lambda>pw. snd (checkWord newLetter pw)) pws"

section \<open>Example sessions\<close>

text \<open>A session as \<open>POST /create\<close> makes it, after \<open>prepare\<close>.\<close>

definition exampleGame :: bingoGameSession where
  "exampleGame =
     \<lparr>gameId = ''BG1'', maxPlayers = 2, status = Ready, winningPattern = FullHouse,
      autoCallInterval = 3000, markingMode = Manual, players = [], bingoCards = [],
      calledNumbers = [], availableCards = [1..<101], cardAssignments = Map.empty,
      currentNumber = None, winners = [],
      startedAt = None, completedAt = None\<rparr>"

text \<open>Two cards, owned by players 1 and 2.\<close>

definition exampleCard1 :: bingoCard where
  "exampleCard1 =
     \<lparr>player = 1, cardNumber = 1,
      grid = [[10, 13, 1, 3, 7], [17, 30, 22, 19, 27], [45, 42, 0, 41, 31],
              [56, 51, 55, 49, 48], [61, 72, 67, 66, 63]],
      marked = freshMarked\<rparr>"

definition exampleCard2 :: bingoCard where
  "exampleCard2 =
     \<lparr>player = 2, cardNumber = 2,
      grid = [[1, 7, 14, 12, 10], [27, 20, 19, 29, 24], [34, 44, 0, 39, 32],
              [55, 50, 51, 56, 49], [75, 68, 62, 65, 63]],
      marked = freshMarked\<rparr>"

text \<open>The session after both players joined and selected their cards.\<close>

definition readyGame :: bingoGameSession where
  "readyGame = exampleGame\<lparr>players := [1, 2], bingoCards := [exampleCard1, exampleCard2]\<rparr>"

text \<open>The same session started at time 1, in manual marking mode.\<close>

definition activeGame :: bingoGameSession where
  "activeGame = readyGame\<lparr>status := Active, startedAt := Some 1\<rparr>"

text \<open>
  All 75 numbers called and no player has marked anything: the pool is exhausted and
  nobody has won.
\<close>

definition exhaustedGame :: bingoGameSession where
  "exhaustedGame =
     activeGame\<lparr>calledNumbers := map (\<lambda>n. \<lparr>number = n, calledAt = 2\<rparr>) [1..75],
                currentNumber := Some 75\<rparr>"

text \<open>A session stopped at time 5.\<close>

definition completedGame :: bingoGameSession where
  "completedGame = activeGame\<lparr>status := Completed, completedAt := Some 5\<rparr>"


text \<open>The server that holds a session while the session's timer is registered.\<close>

definition serverWith :: "bingoGameSession \<Rightarrow> server" where
  "serverWith game = \<lparr>doc = Some game, autoCallIntervals = {gameId game}\<rparr>"

text \<open>
  A letter session of word length 3, open for players, that players 1 and 2 joined.
\<close>

definition letterReady :: letterBingoGameSession where
  "letterReady =
     \<lparr>l_gameId = ''LB1'', l_maxPlayers = 2, wordLength = 3, l_status = LReady,
      l_players = [1, 2], playerWords = [], drawnLetters = [], remainingLetters = [],
      l_winners = [], winningWords = [], l_startedAt = None, l_completedAt = None\<rparr>"

text \<open>
  A letter session of word length 3 in which players 1 and 2 submitted the two words,
  as \<open>letterStartRoute\<close> leaves it when started at time 1.
\<close>

definition letterPlaying :: "string \<Rightarrow> string \<Rightarrow> letterBingoGameSession" where
  "letterPlaying w1 w2 =
     \<lparr>l_gameId = ''LB1'', l_maxPlayers = 2, wordLength = 3, l_status = Playing,
      l_players = [1, 2],
      playerWords =
        [\<lparr>pw_player = 1, word = w1, matchedLetters = [], isWinner = False\<rparr>,
         \<lparr>pw_player = 2, word = w2, matchedLetters = [], isWinner = False\<rparr>],
      drawnLetters = [], remainingLetters = ''ABCDEFGHIJKLMNOPQRSTUVWXYZ'',
      l_winners = [], winningWords = [], l_startedAt = Some 1, l_completedAt = None\<rparr>"

text \<open>
  The letter session with the words ABC and ABD after the letters A, B and C were
  drawn at times 2, 3 and 4: player 1 has won and the session is completed.
\<close>

definition letterWon :: letterBingoGameSession where
  "letterWon =
     snd (drawLetter 0 4 (snd (drawLetter 0 3 (snd (drawLetter 0 2
       (letterPlaying ''ABC'' ''ABD''))))))"

text \<open>The letter server that holds a session while the session's timer is registered.\<close>

definition letterServerWith :: "letterBingoGameSession \<Rightarrow> letterServer" where
  "letterServerWith game = \<lparr>l_doc = Some game, letterDrawIntervals = {l_gameId game}\<rparr>"

section \<open>Theorems\<close>

subsection \<open>The draw pool of the grid variant\<close>

lemma randomInt_less: "0 < n \<Longrightarrow> randomInt 0 n e < n"
  by (simp add: randomInt_def)

lemma remainingNumbers_set:
  "set (remainingNumbers s) = {1..75} - set (map number (calledNumbers s))"
  by (auto simp: remainingNumbers_def)

lemma remainingNumbers_empty:
  "(length (remainingNumbers s) = 0) = ({1..75} \<subseteq> set (map number (calledNumbers s)))"
proof -
  have "(length (remainingNumbers s) = 0) = (set (remainingNumbers s) = {})"
    by simp
  then show ?thesis
    unfolding remainingNumbers_set by blast
qed

lemma callNumber_exhausted:
  "(fst (callNumber e now s) = None) = ({1..75} \<subseteq> set (map number (calledNumbers s)))"
  using remainingNumbers_empty [of s]
  by (simp add: callNumber_def Let_def)

lemma calledNumbers_markNumberOnAllCards [simp]:
  "calledNumbers (markNumberOnAllCards n s) = calledNumbers s"
  by (simp add: markNumberOnAllCards_def)

lemma callNumber_drawn:
  assumes "remainingNumbers s \<noteq> []"
  shows "\<exists>n. fst (callNumber e now s) = Some n \<and> n \<in> {1..75} \<and>
             n \<notin> set (map number (calledNumbers s)) \<and>
             calledNumbers (snd (callNumber e now s)) =
               calledNumbers s @ [\<lparr>number = n, calledAt = now\<rparr>]"
proof -
  let ?rem = "remainingNumbers s"
  let ?n = "?rem ! randomInt 0 (length ?rem) e"
  from assms have "randomInt 0 (length ?rem) e < length ?rem"
    by (simp add: randomInt_less)
  then have "?n \<in> set ?rem"
    by (rule nth_mem)
  then have "?n \<in> {1..75} \<and> ?n \<notin> set (map number (calledNumbers s))"
    unfolding remainingNumbers_set by blast
  with assms show ?thesis
    by (simp add: callNumber_def Let_def)
qed

lemma remaining_nonempty:
  assumes "length (calledNumbers s) < 75"
  shows "remainingNumbers s \<noteq> []"
proof
  assume "remainingNumbers s = []"
  then have sub: "{1..75::int} \<subseteq> set (map number (calledNumbers s))"
    using remainingNumbers_empty [of s] by simp
  have "card {1..75::int} \<le> card (set (map number (calledNumbers s)))"
    using sub by (intro card_mono) simp_all
  also have "\<dots> \<le> length (map number (calledNumbers s))"
    by (rule card_length)
  finally show False using assms by simp
qed

lemma callNumbers_run:
  "poolInv s \<Longrightarrow> length (calledNumbers s) + length es \<le> 75 \<Longrightarrow>
   callNumbers es s = (rs, s') \<Longrightarrow>
   poolInv s' \<and> None \<notin> set rs \<and> length rs = length es \<and>
   map number (calledNumbers s') = map number (calledNumbers s) @ map the rs"
proof (induction es arbitrary: s rs s')
  case Nil
  then show ?case by simp
next
  case (Cons x es)
  obtain e now where x: "x = (e, now)" by (cases x)
  obtain r s1 where c: "callNumber e now s = (r, s1)" by (cases "callNumber e now s")
  obtain rs1 s2 where cs: "callNumbers es s1 = (rs1, s2)" by (cases "callNumbers es s1")
  from Cons.prems(2) have "length (calledNumbers s) < 75" by simp
  then have "remainingNumbers s \<noteq> []" by (rule remaining_nonempty)
  from callNumber_drawn [OF this, of e now] c
  obtain n where n: "r = Some n" "n \<in> {1..75}" "n \<notin> set (map number (calledNumbers s))"
    "calledNumbers s1 = calledNumbers s @ [\<lparr>number = n, calledAt = now\<rparr>]"
    by auto
  from n Cons.prems(1) have inv1: "poolInv s1"
    by (simp add: poolInv_def)
  from n Cons.prems(2) have len1: "length (calledNumbers s1) + length es \<le> 75" by simp
  note IH = Cons.IH [OF inv1 len1 cs]
  from Cons.prems(3) x c cs have "rs = r # rs1" "s' = s2" by simp_all
  with IH n show ?case by simp
qed

lemma poolInv_full:
  assumes "poolInv s" "length (calledNumbers s) = 75"
  shows "{1..75} \<subseteq> set (map number (calledNumbers s))"
proof -
  let ?C = "set (map number (calledNumbers s))"
  from assms(1) have "card ?C = length (map number (calledNumbers s))"
    unfolding poolInv_def by (metis distinct_card)
  with assms(2) have "card ?C = 75" by simp
  then have "card ?C = card {1..75::int}" by simp
  moreover from assms have "?C \<subseteq> {1..75}" by (simp add: poolInv_def)
  ultimately have "?C = {1..75}"
    by (intro card_subset_eq) simp_all
  then show ?thesis by simp
qed

text \<open>
  Claim C1. \<open>callNumber\<close> returns \<open>null\<close> exactly when the called numbers already contain
  all of 1..75. Otherwise it returns a number of 1..75 that is not among the called
  numbers, and appends exactly that number to \<open>calledNumbers\<close>. Starting from an empty
  history, 75 successive calls all succeed with pairwise different numbers, and the call
  after them returns \<open>null\<close>, whatever the random source chooses.
\<close>

theorem callNumber_draw_pool:
  "((fst (callNumber e now s) = None) = ({1..75} \<subseteq> set (map number (calledNumbers s)))) \<and>
   (fst (callNumber e now s) \<noteq> None \<longrightarrow>
     (\<exists>n. fst (callNumber e now s) = Some n \<and> n \<in> {1..75} \<and>
          n \<notin> set (map number (calledNumbers s)) \<and>
          calledNumbers (snd (callNumber e now s)) =
            calledNumbers s @ [\<lparr>number = n, calledAt = now\<rparr>])) \<and>
   (calledNumbers s = [] \<and> length es = 75 \<longrightarrow>
     (case callNumbers es s of
        (rs, s') \<Rightarrow> None \<notin> set rs \<and> distinct rs \<and> length rs = 75 \<and>
                    fst (callNumber e now s') = None))"
proof (intro conjI impI)
  show "(fst (callNumber e now s) = None) = ({1..75} \<subseteq> set (map number (calledNumbers s)))"
    by (rule callNumber_exhausted)
next
  assume "fst (callNumber e now s) \<noteq> None"
  then have "remainingNumbers s \<noteq> []"
    by (auto simp: callNumber_def)
  then show "\<exists>n. fst (callNumber e now s) = Some n \<and> n \<in> {1..75} \<and>
        n \<notin> set (map number (calledNumbers s)) \<and>
        calledNumbers (snd (callNumber e now s)) =
          calledNumbers s @ [\<lparr>number = n, calledAt = now\<rparr>]"
    by (rule callNumber_drawn)
next
  assume a: "calledNumbers s = [] \<and> length es = 75"
  obtain rs s' where r: "callNumbers es s = (rs, s')" by (cases "callNumbers es s")
  from a have inv: "poolInv s" by (simp add: poolInv_def)
  from a have len: "length (calledNumbers s) + length es \<le> 75" by simp
  note run = callNumbers_run [OF inv len r]
  from run a have m: "map number (calledNumbers s') = map the rs" by simp
  from run have "distinct (map the rs)"
    unfolding m [symmetric] poolInv_def by simp
  then have d: "distinct rs" by (simp add: distinct_map)
  from m run a have "length (calledNumbers s') = 75"
    by (metis length_map)
  with run have "{1..75} \<subseteq> set (map number (calledNumbers s'))"
    by (intro poolInv_full) simp_all
  then have "fst (callNumber e now s') = None"
    by (simp add: callNumber_exhausted)
  with run d a r show "case callNumbers es s of
      (rs, s') \<Rightarrow> None \<notin> set rs \<and> distinct rs \<and> length rs = 75 \<and>
                  fst (callNumber e now s') = None"
    by simp
qed

theorem callNumber_draw_pool_witness:
  "fst (callNumber 0 5 exampleGame) \<noteq> None \<and>
   calledNumbers exampleGame = [] \<and> length (replicate 75 (0::nat, 5::nat)) = 75 \<and>
   (\<exists>n. fst (callNumber 0 5 exampleGame) = Some n \<and> n \<in> {1..75} \<and>
        n \<notin> set (map number (calledNumbers exampleGame)) \<and>
        calledNumbers (snd (callNumber 0 5 exampleGame)) =
          calledNumbers exampleGame @ [\<lparr>number = n, calledAt = 5\<rparr>]) \<and>
   (case callNumbers (replicate 75 (0, 5)) exampleGame of
      (rs, s') \<Rightarrow> None \<notin> set rs \<and> distinct rs \<and> length rs = 75 \<and>
                  fst (callNumber 0 5 s') = None)"
proof -
  have h1: "fst (callNumber 0 5 exampleGame) \<noteq> None"
    by (simp add: callNumber_exhausted exampleGame_def)
  have h2: "calledNumbers exampleGame = [] \<and> length (replicate 75 (0::nat, 5::nat)) = 75"
    by (simp add: exampleGame_def)
  from h1 h2 callNumber_draw_pool [of 0 5 exampleGame "replicate 75 (0, 5)"]
  show ?thesis by simp
qed

subsection \<open>The card generator\<close>

lemma nextSeed_less: "nextSeed seed < 233280"
  by (simp add: nextSeed_def)

lemma nextInt_le: "fst (nextInt 0 (Suc n) seed) \<le> n"
proof -
  have "nextSeed seed * Suc n < 233280 * Suc n"
    by (rule mult_less_mono1 [OF nextSeed_less]) simp
  then have "nextSeed seed * Suc n < Suc n * 233280"
    by (simp only: mult.commute)
  then have "nextSeed seed * Suc n div 233280 < Suc n"
    by (rule less_mult_imp_div_less)
  then show ?thesis
    by (simp add: nextInt_def Let_def)
qed

lemma shuffle_perm:
  "k < length xs \<Longrightarrow>
   length (fst (shuffle k xs seed)) = length xs \<and>
   set (fst (shuffle k xs seed)) = set xs \<and>
   distinct (fst (shuffle k xs seed)) = distinct xs"
proof (induction k arbitrary: xs seed)
  case 0
  then show ?case by simp
next
  case (Suc k)
  obtain j seed1 where n: "nextInt 0 (Suc k + 1) seed = (j, seed1)"
    by (cases "nextInt 0 (Suc k + 1) seed")
  have "j \<le> Suc k"
    using nextInt_le [of "Suc k" seed] n by simp
  with Suc.prems have j: "j < length xs" by simp
  let ?ys = "xs[Suc k := xs ! j, j := xs ! Suc k]"
  have "k < length ?ys" using Suc.prems by simp
  from Suc.IH [OF this, of seed1] Suc.prems j n show ?case
    by simp
qed


lemma columnRanges_nth:
  assumes "col < 5"
  shows "columnRanges ! col = (15 * int col + 1, 15 * int col + 15)"
proof -
  from assms have "col = 0 \<or> col = 1 \<or> col = 2 \<or> col = 3 \<or> col = 4" by arith
  then show ?thesis
    by (elim disjE) (simp_all add: columnRanges_def)
qed

lemma generateColumn_nth:
  assumes "col < 5" "row < 5"
  shows "\<exists>shuffled. length shuffled = 15 \<and> distinct shuffled \<and>
           set shuffled = {15 * int col + 1 .. 15 * int col + 15} \<and>
           length (fst (generateColumn col seed)) = 5 \<and>
           (\<forall>r<5. fst (generateColumn col seed) ! r =
                    (if col = 2 \<and> r = 2 then 0 else shuffled ! r))"
proof -
  let ?lo = "15 * int col + 1" and ?hi = "15 * int col + 15"
  let ?av = "[?lo..?hi]"
  let ?sh = "fst (shuffle (length ?av - 1) ?av seed)"
  have len: "length ?av = 15" by simp
  then have "length ?av - 1 < length ?av" by simp
  from shuffle_perm [OF this, of seed]
  have sh: "length ?sh = 15" "set ?sh = {?lo..?hi}" "distinct ?sh"
    by simp_all
  have col: "fst (generateColumn col seed) =
      map (\<lambda>row. if col = 2 \<and> row = 2 then 0 else ?sh ! row) [0..<5]"
    by (simp add: generateColumn_def columnRanges_nth [OF assms(1)] case_prod_beta Let_def)
  have "\<forall>r<5. fst (generateColumn col seed) ! r = (if col = 2 \<and> r = 2 then 0 else ?sh ! r)"
    unfolding col by simp
  moreover have "length (fst (generateColumn col seed)) = 5"
    unfolding col by simp
  ultimately show ?thesis using sh by blast
qed

lemma generateColumn_props:
  assumes "col < 5" "row < 5"
  shows "length (fst (generateColumn col seed)) = 5 \<and>
         distinct (fst (generateColumn col seed)) \<and>
         (\<not> (col = 2 \<and> row = 2) \<longrightarrow>
            15 * int col + 1 \<le> fst (generateColumn col seed) ! row \<and>
            fst (generateColumn col seed) ! row \<le> 15 * int col + 15) \<and>
         (col = 2 \<longrightarrow> fst (generateColumn col seed) ! 2 = 0)"
proof -
  let ?c = "fst (generateColumn col seed)"
  from generateColumn_nth [OF assms, of seed]
  obtain sh where sh: "length sh = 15" "distinct sh"
      "set sh = {15 * int col + 1 .. 15 * int col + 15}" "length ?c = 5"
      and nth: "\<And>r. r < 5 \<Longrightarrow> ?c ! r = (if col = 2 \<and> r = 2 then 0 else sh ! r)"
    by blast
  have mem: "sh ! r \<in> {15 * int col + 1 .. 15 * int col + 15}" if "r < 5" for r
  proof -
    from that sh(1) have "sh ! r \<in> set sh" by (intro nth_mem) simp
    then show ?thesis by (simp only: sh(3))
  qed
  have "distinct ?c"
    unfolding distinct_conv_nth
  proof (intro allI impI)
    fix i j assume ij: "i < length ?c" "j < length ?c" "i \<noteq> j"
    then have i5: "i < 5" and j5: "j < 5" using sh(4) by simp_all
    have ne: "sh ! i \<noteq> sh ! j"
      using ij(3) i5 j5 sh(1,2) by (simp add: nth_eq_iff_index_eq)
    have pos: "sh ! i \<noteq> 0" "sh ! j \<noteq> 0"
      using mem [OF i5] mem [OF j5] by auto
    show "?c ! i \<noteq> ?c ! j"
      using ne pos ij(3) by (simp add: nth [OF i5] nth [OF j5])
  qed
  moreover have "\<not> (col = 2 \<and> row = 2) \<longrightarrow>
      15 * int col + 1 \<le> ?c ! row \<and> ?c ! row \<le> 15 * int col + 15"
    using mem [OF assms(2)] by (auto simp: nth [OF assms(2)])
  moreover have "col = 2 \<longrightarrow> ?c ! 2 = 0"
    using nth [of 2] by auto
  ultimately show ?thesis using sh(4) by blast
qed

lemma generateColumns_nth:
  "k < length cols \<Longrightarrow>
   length (generateColumns cols seed) = length cols \<and>
   (\<exists>seed1. generateColumns cols seed ! k = fst (generateColumn (cols ! k) seed1))"
proof (induction cols arbitrary: seed k)
  case Nil
  then show ?case by simp
next
  case (Cons c cols)
  obtain numbers seed1 where g: "generateColumn c seed = (numbers, seed1)"
    by (cases "generateColumn c seed")
  have len: "length (generateColumns (c # cols) seed) = length (c # cols)"
  proof (cases cols)
    case Nil
    with g show ?thesis by simp
  next
    case (Cons d ds)
    then have "0 < length cols" by simp
    from Cons.IH [OF this, of seed1] g show ?thesis by simp
  qed
  show ?case
  proof (cases k)
    case 0
    with g len show ?thesis by (auto intro: exI [of _ seed])
  next
    case (Suc k')
    with Cons.prems have "k' < length cols" by simp
    from Cons.IH [OF this, of seed1] g Suc len show ?thesis by simp
  qed
qed

text \<open>
  Claim C4. The grid is a function of the card number alone: the generator's only state
  is the seed, created from the card number inside each invocation, so two invocations
  with the same card number compute the same grid. Every generated grid has 5 columns of
  5 cells; in column \<open>col\<close> the 5 values are pairwise distinct and every cell other than
  the centre lies in \<open>15 col + 1 .. 15 col + 15\<close>; the centre cell (column 2, row 2) is
  the FREE value 0. The proof uses of the seeded sequence only that each index drawn
  for the swap at \<open>i\<close> lies in \<open>0..i\<close>.
\<close>

theorem generateDeterministicBingoCard_grid:
  assumes "col < 5" "row < 5"
  shows "length (generateDeterministicBingoCard cardNum) = 5 \<and>
         length (generateDeterministicBingoCard cardNum ! col) = 5 \<and>
         distinct (generateDeterministicBingoCard cardNum ! col) \<and>
         (\<not> (col = 2 \<and> row = 2) \<longrightarrow>
            15 * int col + 1 \<le> generateDeterministicBingoCard cardNum ! col ! row \<and>
            generateDeterministicBingoCard cardNum ! col ! row \<le> 15 * int col + 15) \<and>
         generateDeterministicBingoCard cardNum ! 2 ! 2 = 0"
proof -
  let ?g = "generateDeterministicBingoCard cardNum"
  have nc: "[0..<5] ! col = col" using assms(1) by simp
  have n2: "[0..<5] ! 2 = (2::nat)" by simp
  have c: "col < length [0..<5]" using assms(1) by simp
  from generateColumns_nth [OF c, of cardNum]
  obtain seed1 where "length (generateColumns [0..<5] cardNum) = length [0..<5]"
      "generateColumns [0..<5] cardNum ! col = fst (generateColumn ([0..<5] ! col) seed1)"
    by blast
  then have s1: "length ?g = 5" "?g ! col = fst (generateColumn col seed1)"
    by (simp_all add: nc generateDeterministicBingoCard_def)
  have "(2::nat) < length [0..<5]" by simp
  from generateColumns_nth [OF this, of cardNum]
  obtain seed2 where
      "generateColumns [0..<5] cardNum ! 2 = fst (generateColumn ([0..<5] ! 2) seed2)"
    by blast
  then have s2: "?g ! 2 = fst (generateColumn 2 seed2)"
    by (simp only: n2 generateDeterministicBingoCard_def)
  have "fst (generateColumn 2 seed2) ! 2 = 0"
    using generateColumn_props [of 2 2 seed2] by simp
  with s1 s2 generateColumn_props [OF assms, of seed1] show ?thesis
    by simp
qed

theorem generateDeterministicBingoCard_grid_witness:
  "(1::nat) < 5 \<and> (3::nat) < 5 \<and> \<not> ((1::nat) = 2 \<and> (3::nat) = 2) \<and>
   length (generateDeterministicBingoCard 1) = 5 \<and>
   length (generateDeterministicBingoCard 1 ! 1) = 5 \<and>
   distinct (generateDeterministicBingoCard 1 ! 1) \<and>
   16 \<le> generateDeterministicBingoCard 1 ! 1 ! 3 \<and>
   generateDeterministicBingoCard 1 ! 1 ! 3 \<le> 30 \<and>
   generateDeterministicBingoCard 1 ! 2 ! 2 = 0"
  using generateDeterministicBingoCard_grid [of 1 3 1] by simp

subsection \<open>Exhaustion, start and stop in the routes\<close>

lemma callNumber_not_zero: "fst (callNumber e now s) \<noteq> Some 0"
proof (cases "remainingNumbers s = []")
  case True
  then show ?thesis by (simp add: callNumber_def)
next
  case False
  from callNumber_drawn [OF this, of e now] show ?thesis by auto
qed

lemma callNumber_exhausted_eq:
  assumes "{1..75} \<subseteq> set (map number (calledNumbers s))"
  shows "callNumber e now s = (None, s)"
proof -
  from assms have "length (remainingNumbers s) = 0"
    by (simp only: remainingNumbers_empty)
  then show ?thesis by (simp add: callNumber_def)
qed

lemma exhaustedGame_called:
  "{1..75} \<subseteq> set (map number (calledNumbers exhaustedGame))"
  by (simp add: exhaustedGame_def comp_def)

lemma example_fields:
  "gameId exhaustedGame = ''BG1''" "status exhaustedGame = Active"
  "gameId activeGame = ''BG1''" "status activeGame = Active"
  "gameId completedGame = ''BG1''" "status completedGame = Completed"
  "completedAt completedGame = Some 5"
  "gameId readyGame = ''BG1''" "status readyGame = Ready"
  "players readyGame = [1, 2]" "maxPlayers readyGame = 2"
  "map player (bingoCards readyGame) = [1, 2]"
  by (simp_all add: exhaustedGame_def completedGame_def activeGame_def readyGame_def
      exampleGame_def exampleCard1_def exampleCard2_def)

text \<open>
  Claim C3, amended. On a session whose called numbers contain all of 1..75, the timer's
  tick (which runs only on an active session) draws nothing, sets the status to
  completed with the completion time, removes its timer and reports that all numbers
  are called. The manual trigger on such a session, active or paused, draws nothing and
  answers 400 \<open>All numbers have been called\<close>; it leaves the session and the timer as
  they were.
\<close>

theorem callNext_exhausted:
  assumes "doc srv = Some game"
    and "{1..75} \<subseteq> set (map number (calledNumbers game))"
  shows "(status game = Active \<longrightarrow>
            autoCallTick gid e now srv =
              (AllNumbersCalled,
               \<lparr>doc = Some (game\<lparr>status := Completed, completedAt := Some now\<rparr>),
                autoCallIntervals = autoCallIntervals srv - {gid}\<rparr>)) \<and>
         (status game = Active \<or> status game = Paused \<longrightarrow>
            callNumberRoute e now srv = (Response 400 ''All numbers have been called'', srv))"
  using assms
  by (auto simp: autoCallTick_def callNumberRoute_def callNumber_exhausted_eq falsy_def
      stopAutoCallNumbers_def)

theorem callNext_exhausted_witness:
  "doc (serverWith exhaustedGame) = Some exhaustedGame \<and>
   {1..75} \<subseteq> set (map number (calledNumbers exhaustedGame)) \<and>
   status exhaustedGame = Active \<and>
   autoCallTick ''BG1'' 0 9 (serverWith exhaustedGame) =
     (AllNumbersCalled,
      \<lparr>doc = Some (exhaustedGame\<lparr>status := Completed, completedAt := Some 9\<rparr>),
       autoCallIntervals = {}\<rparr>) \<and>
   callNumberRoute 0 9 (serverWith exhaustedGame) =
     (Response 400 ''All numbers have been called'', serverWith exhaustedGame)"
proof -
  have d: "doc (serverWith exhaustedGame) = Some exhaustedGame"
    by (simp add: serverWith_def)
  from callNext_exhausted [OF d exhaustedGame_called, of "''BG1''" 0 9]
  show ?thesis
    using exhaustedGame_called by (simp add: example_fields serverWith_def)
qed

text \<open>
  The claim as stated fails for the manual trigger: on the exhausted active session it
  leaves the status active and the timer registered.
\<close>

theorem callNumberRoute_exhausted_counterexample:
  "{1..75} \<subseteq> set (map number (calledNumbers exhaustedGame)) \<and>
   status exhaustedGame = Active \<and>
   fst (callNumberRoute 0 9 (serverWith exhaustedGame)) =
     Response 400 ''All numbers have been called'' \<and>
   map_option status (doc (snd (callNumberRoute 0 9 (serverWith exhaustedGame)))) =
     Some Active \<and>
   gameId exhaustedGame \<in> autoCallIntervals (snd (callNumberRoute 0 9 (serverWith exhaustedGame)))"
proof -
  have "callNumberRoute 0 9 (serverWith exhaustedGame) =
     (Response 400 ''All numbers have been called'', serverWith exhaustedGame)"
    by (simp add: callNumberRoute_def callNumber_exhausted_eq [OF exhaustedGame_called]
        falsy_def serverWith_def example_fields)
  with exhaustedGame_called show ?thesis
    by (simp add: example_fields serverWith_def)
qed

text \<open>\<open>join\<close> keeps the roster within the capacity, which it never changes.\<close>

lemma joinRoute_rosterInv:
  assumes "doc srv = Some game" "rosterInv game"
    and "doc (snd (joinRoute userId srv)) = Some game1"
  shows "rosterInv game1 \<and> maxPlayers game1 = maxPlayers game"
  using assms
  by (auto simp: joinRoute_def rosterInv_def split: if_splits)



text \<open>
  Claim C9, amended. \<open>stop\<close> has no status check: whatever the status of the session,
  completed included, it answers 200, removes the timer of the game, sets the status
  to completed and sets the completion time to the current time, replacing any earlier
  one.
\<close>

theorem stopRoute_any_status:
  assumes "doc srv = Some game"
  shows "stopRoute now srv =
           (Response 200 ''Game stopped successfully'',
            \<lparr>doc = Some (game\<lparr>status := Completed, completedAt := Some now\<rparr>),
             autoCallIntervals = autoCallIntervals srv - {gameId game}\<rparr>)"
  using assms by (auto simp: stopRoute_def stopAutoCallNumbers_def)

theorem stopRoute_any_status_witness:
  "doc (serverWith activeGame) = Some activeGame \<and>
   stopRoute 9 (serverWith activeGame) =
     (Response 200 ''Game stopped successfully'',
      \<lparr>doc = Some (activeGame\<lparr>status := Completed, completedAt := Some 9\<rparr>),
       autoCallIntervals = {}\<rparr>)"
proof -
  have d: "doc (serverWith activeGame) = Some activeGame"
    by (simp add: serverWith_def)
  from stopRoute_any_status [OF d, of 9] d show ?thesis
    by (simp add: serverWith_def)
qed

text \<open>
  The claim as stated fails on a session already completed at time 5: \<open>stop\<close> at time 9
  is accepted and moves the completion time to 9.
\<close>

theorem stopRoute_completed_counterexample:
  "status completedGame = Completed \<and> completedAt completedGame = Some 5 \<and>
   fst (stopRoute 9 (serverWith completedGame)) = Response 200 ''Game stopped successfully'' \<and>
   map_option completedAt (doc (snd (stopRoute 9 (serverWith completedGame)))) = Some (Some 9)"
  by (simp add: stopRoute_def serverWith_def example_fields)

subsection \<open>What a draw changes\<close>

lemma checkWord_fields [simp]:
  "pw_player (fst (checkWord l pw)) = pw_player pw"
  "word (fst (checkWord l pw)) = word pw"
  by (simp_all add: checkWord_def Let_def)

lemma checkWord_won: "snd (checkWord l pw) \<Longrightarrow> \<not> isWinner pw \<and> isWinner (fst (checkWord l pw))"
  by (auto simp: checkWord_def Let_def split: if_splits)

lemma checkWord_winner [simp]: "isWinner pw \<Longrightarrow> checkWord l pw = (pw, False)"
  by (simp add: checkWord_def)

lemma checkWord_isWinner:
  "isWinner (fst (checkWord l pw)) = (isWinner pw \<or> snd (checkWord l pw))"
  by (auto simp: checkWord_def Let_def)

lemma checkWords_closed:
  "checkWords l pws (visited, ws, wws, hasWinner) =
     (visited @ map (\<lambda>pw. fst (checkWord l pw)) pws,
      ws @ map pw_player (completedBy l pws),
      wws @ map (\<lambda>pw. \<lparr>ww_player = pw_player pw, ww_word = word pw\<rparr>) (completedBy l pws),
      hasWinner \<or> completedBy l pws \<noteq> [])"
proof (induction pws arbitrary: visited ws wws hasWinner)
  case Nil
  then show ?case by (simp add: completedBy_def)
next
  case (Cons pw pws)
  obtain pw1 won where c: "checkWord l pw = (pw1, won)" by (cases "checkWord l pw")
  then have f: "pw_player pw1 = pw_player pw" "word pw1 = word pw"
    using checkWord_fields [of l pw] by simp_all
  show ?case
    using c f by (simp add: Cons.IH completedBy_def)
qed

lemma letterCheckForWinners_closed:
  "letterCheckForWinners l now s =
     (let won = completedBy l (playerWords s);
          s1 = s\<lparr>playerWords := map (\<lambda>pw. fst (checkWord l pw)) (playerWords s),
                 l_winners := l_winners s @ map pw_player won,
                 winningWords := winningWords s @
                   map (\<lambda>pw. \<lparr>ww_player = pw_player pw, ww_word = word pw\<rparr>) won\<rparr>
      in if won \<noteq> [] then s1\<lparr>l_status := LCompleted, l_completedAt := Some now\<rparr> else s1)"
  by (simp add: letterCheckForWinners_def checkWords_closed Let_def)

lemma drawLetter_None:
  "remainingLetters t = [] \<Longrightarrow> drawLetter e now t = (None, t)"
  by (simp add: drawLetter_def)

lemma drawLetter_Some:
  assumes "remainingLetters t \<noteq> []"
  shows "\<exists>i<length (remainingLetters t).
           drawLetter e now t =
             (Some (remainingLetters t ! i),
              letterCheckForWinners (remainingLetters t ! i) now
                (t\<lparr>remainingLetters :=
                     take i (remainingLetters t) @ drop (Suc i) (remainingLetters t),
                   drawnLetters :=
                     drawnLetters t @ [\<lparr>letter = remainingLetters t ! i, drawnAt = now\<rparr>]\<rparr>))"
proof -
  let ?i = "randomIndexBelow (length (remainingLetters t)) e"
  from assms have "?i < length (remainingLetters t)"
    by (simp add: randomIndexBelow_def)
  moreover from assms have "drawLetter e now t =
             (Some (remainingLetters t ! ?i),
              letterCheckForWinners (remainingLetters t ! ?i) now
                (t\<lparr>remainingLetters :=
                     take ?i (remainingLetters t) @ drop (Suc ?i) (remainingLetters t),
                   drawnLetters :=
                     drawnLetters t @ [\<lparr>letter = remainingLetters t ! ?i, drawnAt = now\<rparr>]\<rparr>))"
    by (simp add: drawLetter_def Let_def)
  ultimately show ?thesis by blast
qed






subsection \<open>Winners\<close>

lemma checkCard_fold:
  "fold (checkCard now wp ids) cards acc =
     acc @ concat (map (\<lambda>c. checkCard now wp ids c []) cards)"
proof (induction cards arbitrary: acc)
  case Nil
  then show ?case by simp
next
  case (Cons c cards)
  have "checkCard now wp ids c acc = acc @ checkCard now wp ids c []"
    by (simp add: checkCard_def split: option.splits)
  then show ?case by (simp add: Cons.IH)
qed

lemma checkForWinners_players:
  "map w_player (checkForWinners ld now s) =
     map player
       (filter (\<lambda>c. IdText (player c) \<notin> set (map (winnerPlayerText ld) (winners s)) \<and>
                    winningPatternOf (winningPattern s) (marked c) \<noteq> None)
          (bingoCards s))"
proof -
  have "map w_player (concat (map (\<lambda>c. checkCard now wp ids c []) cards)) =
        map player
          (filter (\<lambda>c. IdText (player c) \<notin> set ids \<and> winningPatternOf wp (marked c) \<noteq> None)
             cards)"
    for wp ids cards
    by (induction cards) (auto simp: checkCard_def split: option.splits)
  then show ?thesis
    by (simp add: checkForWinners_def checkCard_fold Let_def)
qed

lemma winnerPlayerText_plain:
  "(IdText p \<in> set (map (winnerPlayerText Plain) ws)) = (p \<in> set (map w_player ws))"
  by (auto simp: winnerPlayerText_def)

lemma winnerPlayerText_populated:
  "IdText p \<notin> set (map (winnerPlayerText PopulatedWinners) ws)"
  by (auto simp: winnerPlayerText_def)

text \<open>Loaded plainly, the session's recorded winners are skipped.\<close>

lemma checkForWinners_plain_fresh:
  "set (map w_player (checkForWinners Plain now s)) \<inter> set (map w_player (winners s)) = {}"
  unfolding checkForWinners_players winnerPlayerText_plain by auto

lemma checkForWinners_distinct:
  "distinct (map player (bingoCards s)) \<Longrightarrow> distinct (map w_player (checkForWinners ld now s))"
  unfolding checkForWinners_players by (rule distinct_map_filter)

lemma recordWinners_winnersInv:
  assumes "winnersInv s"
  shows "winnersInv (recordWinners now (checkForWinners Plain now s) s)"
proof -
  from assms have "distinct (map w_player (winners s) @ map w_player (checkForWinners Plain now s))"
    using checkForWinners_plain_fresh [of now s] checkForWinners_distinct [of s Plain now]
    by (simp add: winnersInv_def Int_commute)
  with assms show ?thesis
    by (simp add: winnersInv_def recordWinners_def)
qed

text \<open>
  Loaded with the winners populated, no card is skipped: the result is the one for
  the session without recorded winners.
\<close>

lemma checkForWinners_populated:
  "checkForWinners PopulatedWinners now s = checkForWinners Plain now (s\<lparr>winners := []\<rparr>)"
proof -
  have "checkCard now wp (map (winnerPlayerText PopulatedWinners) ws) c acc =
        checkCard now wp [] c acc" for wp ws c acc
    using winnerPlayerText_populated [of "player c" ws]
    by (simp add: checkCard_def)
  then have "checkCard now wp (map (winnerPlayerText PopulatedWinners) ws) =
             checkCard now wp []" for wp ws
    by (intro ext)
  then show ?thesis
    by (simp add: checkForWinners_def)
qed

lemma completedBy_fresh:
  assumes "letterInv t"
  shows "set (map pw_player (completedBy l (playerWords t))) \<inter> set (l_winners t) = {}"
proof -
  have "pw_player pw \<notin> set (l_winners t)" if "pw \<in> set (completedBy l (playerWords t))" for pw
  proof -
    from that have "pw \<in> set (playerWords t)" "snd (checkWord l pw)"
      by (simp_all add: completedBy_def)
    then have "\<not> isWinner pw" using checkWord_won by blast
    with assms \<open>pw \<in> set (playerWords t)\<close> show ?thesis
      by (auto simp: letterInv_def list_all_iff)
  qed
  then show ?thesis by auto
qed

lemma letterCheckForWinners_letterInv:
  assumes "letterInv t"
  shows "letterInv (letterCheckForWinners l now t)"
proof -
  let ?pws = "playerWords t"
  let ?won = "completedBy l ?pws"
  let ?ws = "l_winners t @ map pw_player ?won"
  let ?pws1 = "map (\<lambda>pw. fst (checkWord l pw)) ?pws"
  from assms have dp: "distinct (map pw_player ?pws)" and dw: "distinct (l_winners t)"
    and fl: "\<And>pw. pw \<in> set ?pws \<Longrightarrow> pw_player pw \<in> set (l_winners t) \<Longrightarrow> isWinner pw"
    by (auto simp: letterInv_def list_all_iff)
  have p1: "map pw_player ?pws1 = map pw_player ?pws"
    by (simp add: comp_def)
  have "distinct (map pw_player ?won)"
    unfolding completedBy_def using dp by (rule distinct_map_filter)
  with dw completedBy_fresh [OF assms, of l] have d2: "distinct ?ws"
    by (simp add: Int_commute)
  have f2: "isWinner (fst (checkWord l pw))"
    if "pw \<in> set ?pws" "pw_player pw \<in> set ?ws" for pw
  proof (cases "pw_player pw \<in> set (l_winners t)")
    case True
    with that fl show ?thesis by (simp add: checkWord_isWinner)
  next
    case False
    with that obtain q where q: "q \<in> set ?pws" "snd (checkWord l q)" "pw_player q = pw_player pw"
      by (auto simp: completedBy_def)
    from dp have "inj_on pw_player (set ?pws)" by (simp add: distinct_map)
    with q that have "q = pw" by (auto dest: inj_onD)
    with q show ?thesis by (simp add: checkWord_isWinner)
  qed
  from p1 dp d2 f2 show ?thesis
    by (auto simp: letterInv_def letterCheckForWinners_closed Let_def list_all_iff comp_def)
qed




lemma letterWon_eq:
  "letterWon =
     \<lparr>l_gameId = ''LB1'', l_maxPlayers = 2, wordLength = 3, l_status = LCompleted,
      l_players = [1, 2],
      playerWords =
        [\<lparr>pw_player = 1, word = ''ABC'', matchedLetters = ''ABC'', isWinner = True\<rparr>,
         \<lparr>pw_player = 2, word = ''ABD'', matchedLetters = ''AB'', isWinner = False\<rparr>],
      drawnLetters =
        [\<lparr>letter = CHR ''A'', drawnAt = 2\<rparr>, \<lparr>letter = CHR ''B'', drawnAt = 3\<rparr>,
         \<lparr>letter = CHR ''C'', drawnAt = 4\<rparr>],
      remainingLetters = ''DEFGHIJKLMNOPQRSTUVWXYZ'', l_winners = [1],
      winningWords = [\<lparr>ww_player = 1, ww_word = ''ABC''\<rparr>],
      l_startedAt = Some 1, l_completedAt = Some 4\<rparr>"
  by (simp add: letterWon_def letterPlaying_def drawLetter_def randomIndexBelow_def Let_def
      letterCheckForWinners_closed completedBy_def checkWord_def)

text \<open>
  In the word variant, on a session where the word of every recorded winner carries
  \<open>isWinner\<close>, the players that \<open>checkForWinners\<close> appends are not yet in \<open>winners\<close>, and
  the session keeps one entry per player.
\<close>

lemma letter_winners_once_per_player:
  "l_winners (letterCheckForWinners l now t) =
     l_winners t @ map pw_player (completedBy l (playerWords t)) \<and>
   (letterInv t \<longrightarrow>
      set (map pw_player (completedBy l (playerWords t))) \<inter> set (l_winners t) = {} \<and>
      letterInv (letterCheckForWinners l now t))"
  using completedBy_fresh [of t l] letterCheckForWinners_letterInv [of t l now]
  by (simp add: letterCheckForWinners_closed Let_def)



subsection \<open>The letter timer and the first win\<close>

lemma drawLetter_winners:
  "l_winners (snd (drawLetter e now t)) \<noteq> l_winners t \<Longrightarrow>
   l_status (snd (drawLetter e now t)) = LCompleted"
proof (cases "remainingLetters t = []")
  case True
  assume "l_winners (snd (drawLetter e now t)) \<noteq> l_winners t"
  with True show ?thesis by (simp add: drawLetter_None)
next
  case False
  assume w: "l_winners (snd (drawLetter e now t)) \<noteq> l_winners t"
  from drawLetter_Some [OF False, of e now] obtain i where
    d: "drawLetter e now t =
             (Some (remainingLetters t ! i),
              letterCheckForWinners (remainingLetters t ! i) now
                (t\<lparr>remainingLetters :=
                     take i (remainingLetters t) @ drop (Suc i) (remainingLetters t),
                   drawnLetters :=
                     drawnLetters t @ [\<lparr>letter = remainingLetters t ! i, drawnAt = now\<rparr>]\<rparr>))"
    by blast
  from w show ?thesis
    unfolding d by (simp add: letterCheckForWinners_closed Let_def split: if_splits)
qed

lemma drawLetter_status:
  "l_status (snd (drawLetter e now t)) = l_status t \<or>
   l_status (snd (drawLetter e now t)) = LCompleted"
proof (cases "remainingLetters t = []")
  case True
  then show ?thesis by (simp add: drawLetter_None)
next
  case False
  from drawLetter_Some [OF False, of e now] obtain i where
    d: "drawLetter e now t =
             (Some (remainingLetters t ! i),
              letterCheckForWinners (remainingLetters t ! i) now
                (t\<lparr>remainingLetters :=
                     take i (remainingLetters t) @ drop (Suc i) (remainingLetters t),
                   drawnLetters :=
                     drawnLetters t @ [\<lparr>letter = remainingLetters t ! i, drawnAt = now\<rparr>]\<rparr>))"
    by blast
  show ?thesis
    unfolding d by (simp add: letterCheckForWinners_closed Let_def)
qed

lemma letterDrawTick_idle:
  assumes "l_doc srv = Some t" "l_status t \<noteq> Playing"
  shows "l_doc (letterDrawTick gid e now srv) = Some t"
  using assms by (simp add: letterDrawTick_def)

lemma letterDrawTicks_idle:
  "l_doc srv = Some t \<Longrightarrow> l_status t \<noteq> Playing \<Longrightarrow>
   l_doc (letterDrawTicks gid es srv) = Some t"
proof (induction es arbitrary: srv)
  case Nil
  then show ?case by simp
next
  case (Cons x es)
  obtain e now where x: "x = (e, now)" by (cases x)
  from Cons.prems have "l_doc (letterDrawTick gid e now srv) = Some t"
    by (intro letterDrawTick_idle)
  from Cons.IH [OF this Cons.prems(2)] x show ?case by simp
qed

lemma letterDrawTick_playing:
  assumes "l_doc srv = Some t" "l_status t = Playing"
  shows "l_doc (letterDrawTick gid e now srv) =
           Some (if fst (drawLetter e now t) = None then t\<lparr>l_status := LCompleted\<rparr>
                 else snd (drawLetter e now t))"
proof (cases "remainingLetters t = []")
  case True
  with assms show ?thesis
    by (simp add: letterDrawTick_def drawLetter_None)
next
  case False
  from drawLetter_Some [OF False, of e now] obtain l t1 where
    "drawLetter e now t = (Some l, t1)" by blast
  with assms show ?thesis
    by (simp add: letterDrawTick_def)
qed

lemma letterDrawTicks_single_win:
  "l_doc srv = Some t \<Longrightarrow> l_status t = Playing \<Longrightarrow> l_winners t = [] \<Longrightarrow>
   \<exists>t1. l_doc (letterDrawTicks gid es srv) = Some t1 \<and>
     (l_winners t1 = [] \<or>
      (\<exists>pre e now post tp.
          es = pre @ (e, now) # post \<and>
          l_doc (letterDrawTicks gid pre srv) = Some tp \<and>
          l_status tp = Playing \<and> l_winners tp = [] \<and>
          t1 = snd (drawLetter e now tp) \<and> l_status t1 = LCompleted))"
proof (induction es arbitrary: srv t)
  case Nil
  then show ?case by simp
next
  case (Cons x es)
  obtain e now where x: "x = (e, now)" by (cases x)
  let ?srv1 = "letterDrawTick gid e now srv"
  let ?d = "snd (drawLetter e now t)"
  show ?case
  proof (cases "fst (drawLetter e now t) = None")
    case True
    with Cons.prems have d1: "l_doc ?srv1 = Some (t\<lparr>l_status := LCompleted\<rparr>)"
      by (simp add: letterDrawTick_playing)
    have "l_doc (letterDrawTicks gid es ?srv1) = Some (t\<lparr>l_status := LCompleted\<rparr>)"
      by (rule letterDrawTicks_idle [OF d1]) simp
    with Cons.prems x show ?thesis by simp
  next
    case False
    with letterDrawTick_playing [OF Cons.prems(1,2), of gid e now]
    have d1: "l_doc ?srv1 = Some ?d"
      by (simp only: if_False)
    show ?thesis
    proof (cases "l_winners ?d = []")
      case True
      note nowin = this
      show ?thesis
      proof (cases "l_status ?d = Playing")
        case True
        from Cons.IH [OF d1 True nowin] obtain t1 where
          t1: "l_doc (letterDrawTicks gid es ?srv1) = Some t1"
          and alt: "l_winners t1 = [] \<or>
            (\<exists>pre e' now' post tp.
              es = pre @ (e', now') # post \<and>
              l_doc (letterDrawTicks gid pre ?srv1) = Some tp \<and>
              l_status tp = Playing \<and> l_winners tp = [] \<and>
              t1 = snd (drawLetter e' now' tp) \<and> l_status t1 = LCompleted)"
          by blast
        from alt show ?thesis
        proof
          assume "l_winners t1 = []"
          with t1 x show ?thesis by simp
        next
          assume "\<exists>pre e' now' post tp.
              es = pre @ (e', now') # post \<and>
              l_doc (letterDrawTicks gid pre ?srv1) = Some tp \<and>
              l_status tp = Playing \<and> l_winners tp = [] \<and>
              t1 = snd (drawLetter e' now' tp) \<and> l_status t1 = LCompleted"
          then obtain pre e' now' post tp where p:
              "es = pre @ (e', now') # post"
              "l_doc (letterDrawTicks gid pre ?srv1) = Some tp"
              "l_status tp = Playing" "l_winners tp = []"
              "t1 = snd (drawLetter e' now' tp)" "l_status t1 = LCompleted"
            by blast
          from p(1) x have a: "x # es = ((e, now) # pre) @ (e', now') # post" by simp
          from p(2) have b:
            "l_doc (letterDrawTicks gid ((e, now) # pre) srv) = Some tp" by simp
          have "\<exists>pre e now post tp.
              x # es = pre @ (e, now) # post \<and>
              l_doc (letterDrawTicks gid pre srv) = Some tp \<and>
              l_status tp = Playing \<and> l_winners tp = [] \<and>
              t1 = snd (drawLetter e now tp) \<and> l_status t1 = LCompleted"
            using a b p(3-6)
            by (intro exI [of _ "(e, now) # pre"] exI [of _ e'] exI [of _ now']
                exI [of _ post] exI [of _ tp] conjI)
          moreover from t1 x have "l_doc (letterDrawTicks gid (x # es) srv) = Some t1"
            by simp
          ultimately show ?thesis by (intro exI [of _ t1] conjI disjI2)
        qed
      next
        case False
        from letterDrawTicks_idle [OF d1 False, of gid es] nowin x show ?thesis
          by simp
      qed
    next
      case False
      with Cons.prems have "l_winners ?d \<noteq> l_winners t" by simp
      then have st: "l_status ?d = LCompleted" by (rule drawLetter_winners)
      then have "l_status ?d \<noteq> Playing" by simp
      from letterDrawTicks_idle [OF d1 this, of gid es]
      have t1: "l_doc (letterDrawTicks gid (x # es) srv) = Some ?d"
        using x by simp
      have "\<exists>pre e now post tp.
              x # es = pre @ (e, now) # post \<and>
              l_doc (letterDrawTicks gid pre srv) = Some tp \<and>
              l_status tp = Playing \<and> l_winners tp = [] \<and>
              ?d = snd (drawLetter e now tp) \<and> l_status ?d = LCompleted"
        using x st Cons.prems
        by (intro exI [of _ "[]"] exI [of _ e] exI [of _ now] exI [of _ es] exI [of _ t])
          simp
      with t1 show ?thesis by (intro exI [of _ ?d] conjI disjI2)
    qed
  qed
qed


lemma letterPlaying_fields:
  "l_status (letterPlaying w1 w2) = Playing" "l_winners (letterPlaying w1 w2) = []"
  "l_gameId (letterPlaying w1 w2) = ''LB1''"
  by (simp_all add: letterPlaying_def)

lemma letterWon_draw:
  "fst (drawLetter 0 9 letterWon) = Some CHR ''D''"
  "l_winners (snd (drawLetter 0 9 letterWon)) = [1, 2]"
  "l_status (snd (drawLetter 0 9 letterWon)) = LCompleted"
  "remainingLetters (snd (drawLetter 0 9 letterWon)) = ''EFGHIJKLMNOPQRSTUVWXYZ''"
  "map letter (drawnLetters (snd (drawLetter 0 9 letterWon))) = ''ABCD''"
  by (simp_all add: letterWon_eq drawLetter_def randomIndexBelow_def Let_def
      letterCheckForWinners_closed completedBy_def checkWord_def)

text \<open>
  Claim C2, amended. A call of \<open>drawLetter\<close> that records any winner completes the
  session; it records every player whose word the drawn letter completes, possibly
  several in the same call. The draw timer leaves a session that is not \<open>playing\<close>
  untouched. Hence, in every run of the timer from a playing session without winners,
  all winners of the final session were recorded by one single call of \<open>drawLetter\<close>,
  made on a playing session without winners, and that call completed the session.
\<close>

theorem first_win_completes:
  "(l_winners (snd (drawLetter e now t)) \<noteq> l_winners t \<longrightarrow>
      l_status (snd (drawLetter e now t)) = LCompleted) \<and>
   (l_doc srv = Some t \<and> l_status t \<noteq> Playing \<longrightarrow>
      l_doc (letterDrawTicks gid es srv) = Some t) \<and>
   (l_doc srv0 = Some t0 \<and> l_status t0 = Playing \<and> l_winners t0 = [] \<longrightarrow>
      (\<exists>t1. l_doc (letterDrawTicks gid es srv0) = Some t1 \<and>
         (l_winners t1 = [] \<or>
          (\<exists>pre e1 now1 post tp.
              es = pre @ (e1, now1) # post \<and>
              l_doc (letterDrawTicks gid pre srv0) = Some tp \<and>
              l_status tp = Playing \<and> l_winners tp = [] \<and>
              t1 = snd (drawLetter e1 now1 tp) \<and> l_status t1 = LCompleted))))"
  using drawLetter_winners [of e now t] letterDrawTicks_idle [of srv t gid es]
    letterDrawTicks_single_win [of srv0 t0 gid es]
  by (intro conjI impI) simp_all

theorem first_win_completes_witness:
  "l_winners (snd (drawLetter 0 9 letterWon)) \<noteq> l_winners letterWon \<and>
   l_doc (letterServerWith letterWon) = Some letterWon \<and> l_status letterWon \<noteq> Playing \<and>
   l_doc (letterServerWith (letterPlaying ''ABC'' ''CAB'')) = Some (letterPlaying ''ABC'' ''CAB'') \<and>
   l_status (letterPlaying ''ABC'' ''CAB'') = Playing \<and>
   l_winners (letterPlaying ''ABC'' ''CAB'') = [] \<and>
   l_status (snd (drawLetter 0 9 letterWon)) = LCompleted \<and>
   l_doc (letterDrawTicks ''LB1'' [(0, 2), (0, 3), (0, 4), (0, 5)] (letterServerWith letterWon)) =
     Some letterWon \<and>
   (\<exists>t1. l_doc (letterDrawTicks ''LB1'' [(0, 2), (0, 3), (0, 4), (0, 5)]
              (letterServerWith (letterPlaying ''ABC'' ''CAB''))) = Some t1 \<and>
      (l_winners t1 = [] \<or>
       (\<exists>pre e1 now1 post tp.
           [(0, 2), (0, 3), (0, 4), (0, 5)] = pre @ (e1, now1) # post \<and>
           l_doc (letterDrawTicks ''LB1'' pre (letterServerWith (letterPlaying ''ABC'' ''CAB''))) =
             Some tp \<and>
           l_status tp = Playing \<and> l_winners tp = [] \<and>
           t1 = snd (drawLetter e1 now1 tp) \<and> l_status t1 = LCompleted)))"
proof -
  have h1: "l_winners (snd (drawLetter 0 9 letterWon)) \<noteq> l_winners letterWon"
    by (simp add: letterWon_draw) (simp add: letterWon_eq)
  have h2: "l_doc (letterServerWith letterWon) = Some letterWon \<and> l_status letterWon \<noteq> Playing"
    by (simp add: letterServerWith_def letterWon_eq)
  have h3: "l_doc (letterServerWith (letterPlaying ''ABC'' ''CAB'')) =
      Some (letterPlaying ''ABC'' ''CAB'') \<and>
    l_status (letterPlaying ''ABC'' ''CAB'') = Playing \<and>
    l_winners (letterPlaying ''ABC'' ''CAB'') = []"
    by (simp add: letterServerWith_def letterPlaying_fields)
  note t = first_win_completes [of 0 9 letterWon "letterServerWith letterWon" "''LB1''"
      "[(0, 2), (0, 3), (0, 4), (0, 5)]" "letterServerWith (letterPlaying ''ABC'' ''CAB'')"
      "letterPlaying ''ABC'' ''CAB''"]
  from t h1 have c1: "l_status (snd (drawLetter 0 9 letterWon)) = LCompleted" by blast
  from t h2 have c2: "l_doc (letterDrawTicks ''LB1'' [(0, 2), (0, 3), (0, 4), (0, 5)]
      (letterServerWith letterWon)) = Some letterWon" by blast
  from t h3 have c3: "\<exists>t1. l_doc (letterDrawTicks ''LB1'' [(0, 2), (0, 3), (0, 4), (0, 5)]
              (letterServerWith (letterPlaying ''ABC'' ''CAB''))) = Some t1 \<and>
      (l_winners t1 = [] \<or>
       (\<exists>pre e1 now1 post tp.
           [(0, 2), (0, 3), (0, 4), (0, 5)] = pre @ (e1, now1) # post \<and>
           l_doc (letterDrawTicks ''LB1'' pre (letterServerWith (letterPlaying ''ABC'' ''CAB''))) =
             Some tp \<and>
           l_status tp = Playing \<and> l_winners tp = [] \<and>
           t1 = snd (drawLetter e1 now1 tp) \<and> l_status t1 = LCompleted))"
    by blast
  from h1 h2 h3 c1 c2 c3 show ?thesis by (intro conjI) simp_all
qed

text \<open>
  The claim as stated fails: with the words ABC and CAB the letter C, drawn third,
  completes both words, and the same call records players 1 and 2 as winners.
\<close>

theorem two_winners_counterexample:
  "l_status (letterPlaying ''ABC'' ''CAB'') = Playing \<and>
   l_winners (letterPlaying ''ABC'' ''CAB'') = [] \<and>
   map_option l_winners
     (l_doc (letterDrawTicks ''LB1'' [(0, 2), (0, 3), (0, 4)]
        (letterServerWith (letterPlaying ''ABC'' ''CAB'')))) = Some [1, 2] \<and>
   map_option (map ww_word \<circ> winningWords)
     (l_doc (letterDrawTicks ''LB1'' [(0, 2), (0, 3), (0, 4)]
        (letterServerWith (letterPlaying ''ABC'' ''CAB'')))) = Some [''ABC'', ''CAB'']"
  by (simp add: letterServerWith_def letterPlaying_def letterDrawTick_def drawLetter_def
      randomIndexBelow_def Let_def letterCheckForWinners_closed completedBy_def checkWord_def)

text \<open>
  Claim C10. \<open>drawLetter\<close> never reads the status: on every session with a letter left
  it removes a letter from \<open>remainingLetters\<close>, appends it to \<open>drawnLetters\<close> and appends
  to \<open>winners\<close> the players whose word the letter completes. On the completed session
  in which player 1 has won with ABC, one more call draws D, which completes ABD, and
  records player 2 as a second winner.
\<close>

theorem drawLetter_no_status_check:
  "(remainingLetters t \<noteq> [] \<longrightarrow>
      (\<exists>i<length (remainingLetters t).
         fst (drawLetter e now t) = Some (remainingLetters t ! i) \<and>
         remainingLetters (snd (drawLetter e now t)) =
           take i (remainingLetters t) @ drop (Suc i) (remainingLetters t) \<and>
         drawnLetters (snd (drawLetter e now t)) =
           drawnLetters t @ [\<lparr>letter = remainingLetters t ! i, drawnAt = now\<rparr>] \<and>
         l_winners (snd (drawLetter e now t)) =
           l_winners t @ map pw_player (completedBy (remainingLetters t ! i) (playerWords t)))) \<and>
   l_status letterWon = LCompleted \<and> l_winners letterWon = [1] \<and>
   fst (drawLetter 0 9 letterWon) = Some CHR ''D'' \<and>
   l_winners (snd (drawLetter 0 9 letterWon)) = [1, 2]"
proof (intro conjI impI)
  assume "remainingLetters t \<noteq> []"
  from drawLetter_Some [OF this, of e now] obtain i where
    i: "i < length (remainingLetters t)" and
    d: "drawLetter e now t =
             (Some (remainingLetters t ! i),
              letterCheckForWinners (remainingLetters t ! i) now
                (t\<lparr>remainingLetters :=
                     take i (remainingLetters t) @ drop (Suc i) (remainingLetters t),
                   drawnLetters :=
                     drawnLetters t @ [\<lparr>letter = remainingLetters t ! i, drawnAt = now\<rparr>]\<rparr>))"
    by blast
  show "\<exists>i<length (remainingLetters t).
         fst (drawLetter e now t) = Some (remainingLetters t ! i) \<and>
         remainingLetters (snd (drawLetter e now t)) =
           take i (remainingLetters t) @ drop (Suc i) (remainingLetters t) \<and>
         drawnLetters (snd (drawLetter e now t)) =
           drawnLetters t @ [\<lparr>letter = remainingLetters t ! i, drawnAt = now\<rparr>] \<and>
         l_winners (snd (drawLetter e now t)) =
           l_winners t @ map pw_player (completedBy (remainingLetters t ! i) (playerWords t))"
    using i by (intro exI [of _ i]) (simp add: d letterCheckForWinners_closed Let_def)
qed (simp_all add: letterWon_draw, simp_all add: letterWon_eq)

theorem drawLetter_no_status_check_witness:
  "remainingLetters letterWon \<noteq> [] \<and> l_status letterWon = LCompleted \<and>
   (\<exists>i<length (remainingLetters letterWon).
         fst (drawLetter 0 9 letterWon) = Some (remainingLetters letterWon ! i) \<and>
         remainingLetters (snd (drawLetter 0 9 letterWon)) =
           take i (remainingLetters letterWon) @ drop (Suc i) (remainingLetters letterWon) \<and>
         drawnLetters (snd (drawLetter 0 9 letterWon)) =
           drawnLetters letterWon @ [\<lparr>letter = remainingLetters letterWon ! i, drawnAt = 9\<rparr>] \<and>
         l_winners (snd (drawLetter 0 9 letterWon)) =
           l_winners letterWon @
             map pw_player (completedBy (remainingLetters letterWon ! i) (playerWords letterWon)))"
proof -
  have h: "remainingLetters letterWon \<noteq> []"
    by (simp add: letterWon_eq)
  from drawLetter_no_status_check [of letterWon 0 9] h show ?thesis
    by blast
qed

subsection \<open>Marking a number on a player's card\<close>

lemma setMarked_length [simp]: "length (setMarked col row m) = length m"
  by (simp add: setMarked_def)

lemma setMarked_nth_length [simp]: "length (setMarked col row m ! i) = length (m ! i)"
  by (cases "col < length m") (simp_all add: setMarked_def nth_list_update list_update_beyond)

lemma setMarked_nth:
  "i < length m \<Longrightarrow> j < length (m ! i) \<Longrightarrow>
   setMarked col row m ! i ! j = (m ! i ! j \<or> (i = col \<and> j = row))"
proof -
  assume ij: "i < length m" "j < length (m ! i)"
  show ?thesis
  proof (cases "i = col")
    case True
    with ij have "setMarked col row m ! i = (m ! i)[row := True]"
      by (simp add: setMarked_def)
    with ij True show ?thesis
      by (cases "j = row") simp_all
  next
    case False
    then show ?thesis by (simp add: setMarked_def)
  qed
qed

lemma markRowFlag_fold:
  "\<exists>M. fst (fold (markRowFlag n col) rows (c, f)) = c\<lparr>marked := M\<rparr> \<and>
       length M = length (marked c) \<and>
       (\<forall>i. length (M ! i) = length (marked c ! i)) \<and>
       (\<forall>i j. i < length (marked c) \<longrightarrow> j < length (marked c ! i) \<longrightarrow>
          M ! i ! j = (marked c ! i ! j \<or> (i = col \<and> j \<in> set rows \<and> grid c ! col ! j = n))) \<and>
       snd (fold (markRowFlag n col) rows (c, f)) =
         (f \<or> (\<exists>j \<in> set rows. grid c ! col ! j = n))"
proof (induction rows arbitrary: c f)
  case Nil
  show ?case by (intro exI [of _ "marked c"]) simp
next
  case (Cons r rows)
  let ?c1 = "fst (markRowFlag n col r (c, f))" and ?f1 = "snd (markRowFlag n col r (c, f))"
  have c1: "?c1 = c\<lparr>marked := marked ?c1\<rparr>" "grid ?c1 = grid c"
    "length (marked ?c1) = length (marked c)"
    "\<And>i. length (marked ?c1 ! i) = length (marked c ! i)"
    "?f1 = (f \<or> grid c ! col ! r = n)"
    by (simp_all add: markRowFlag_def)
  have c1n: "marked ?c1 ! i ! j = (marked c ! i ! j \<or> (i = col \<and> j = r \<and> grid c ! col ! r = n))"
    if "i < length (marked c)" "j < length (marked c ! i)" for i j
    using that by (simp add: markRowFlag_def setMarked_nth)
  from Cons.IH [of ?c1 ?f1] obtain M where
    M: "fst (fold (markRowFlag n col) rows (?c1, ?f1)) = ?c1\<lparr>marked := M\<rparr>"
      "length M = length (marked ?c1)"
      "\<And>i. length (M ! i) = length (marked ?c1 ! i)"
      "\<And>i j. i < length (marked ?c1) \<Longrightarrow> j < length (marked ?c1 ! i) \<Longrightarrow>
          M ! i ! j = (marked ?c1 ! i ! j \<or> (i = col \<and> j \<in> set rows \<and> grid ?c1 ! col ! j = n))"
      "snd (fold (markRowFlag n col) rows (?c1, ?f1)) =
         (?f1 \<or> (\<exists>j \<in> set rows. grid ?c1 ! col ! j = n))"
    by blast
  have e: "fold (markRowFlag n col) (r # rows) (c, f) = fold (markRowFlag n col) rows (?c1, ?f1)"
    by simp
  have "?c1\<lparr>marked := M\<rparr> = c\<lparr>marked := M\<rparr>"
    by (simp add: markRowFlag_def)
  then have "fst (fold (markRowFlag n col) (r # rows) (c, f)) = c\<lparr>marked := M\<rparr>"
    unfolding e M(1) .
  moreover have "length M = length (marked c)"
    using M(2) c1(3) by simp
  moreover have "\<forall>i. length (M ! i) = length (marked c ! i)"
    using M(3) c1(4) by simp
  moreover have "\<forall>i j. i < length (marked c) \<longrightarrow> j < length (marked c ! i) \<longrightarrow>
          M ! i ! j = (marked c ! i ! j \<or>
            (i = col \<and> j \<in> set (r # rows) \<and> grid c ! col ! j = n))"
  proof (intro allI impI)
    fix i j assume ij: "i < length (marked c)" "j < length (marked c ! i)"
    then have "M ! i ! j =
        (marked ?c1 ! i ! j \<or> (i = col \<and> j \<in> set rows \<and> grid ?c1 ! col ! j = n))"
      by (intro M(4)) (simp_all only: c1(3,4))
    then show "M ! i ! j = (marked c ! i ! j \<or>
            (i = col \<and> j \<in> set (r # rows) \<and> grid c ! col ! j = n))"
      unfolding c1n [OF ij] c1(2) by auto
  qed
  moreover have "snd (fold (markRowFlag n col) (r # rows) (c, f)) =
         (f \<or> (\<exists>j \<in> set (r # rows). grid c ! col ! j = n))"
  proof -
    have "snd (fold (markRowFlag n col) (r # rows) (c, f)) =
        (?f1 \<or> (\<exists>j \<in> set rows. grid ?c1 ! col ! j = n))"
      unfolding e by (rule M(5))
    also have "\<dots> = (f \<or> (\<exists>j \<in> set (r # rows). grid c ! col ! j = n))"
      unfolding c1(2) c1(5) by auto
    finally show ?thesis .
  qed
  ultimately show ?case by blast
qed


lemma markNumber_loops:
  "\<exists>M. fst (fold (\<lambda>col. fold (markRowFlag n col) rows) cols (c, f)) = c\<lparr>marked := M\<rparr> \<and>
       length M = length (marked c) \<and>
       (\<forall>i. length (M ! i) = length (marked c ! i)) \<and>
       (\<forall>i j. i < length (marked c) \<longrightarrow> j < length (marked c ! i) \<longrightarrow>
          M ! i ! j =
            (marked c ! i ! j \<or> (i \<in> set cols \<and> j \<in> set rows \<and> grid c ! i ! j = n))) \<and>
       snd (fold (\<lambda>col. fold (markRowFlag n col) rows) cols (c, f)) =
         (f \<or> (\<exists>i \<in> set cols. \<exists>j \<in> set rows. grid c ! i ! j = n))"
proof (induction cols arbitrary: c f)
  case Nil
  show ?case by (intro exI [of _ "marked c"]) simp
next
  case (Cons col cols)
  let ?r1 = "fold (markRowFlag n col) rows (c, f)"
  from markRowFlag_fold [of n col rows c f] obtain M1 where
    M1: "fst ?r1 = c\<lparr>marked := M1\<rparr>" "length M1 = length (marked c)"
      "\<And>i. length (M1 ! i) = length (marked c ! i)"
      "\<And>i j. i < length (marked c) \<Longrightarrow> j < length (marked c ! i) \<Longrightarrow>
          M1 ! i ! j = (marked c ! i ! j \<or> (i = col \<and> j \<in> set rows \<and> grid c ! col ! j = n))"
      "snd ?r1 = (f \<or> (\<exists>j \<in> set rows. grid c ! col ! j = n))"
    by blast
  let ?c1 = "c\<lparr>marked := M1\<rparr>" and ?f1 = "snd ?r1"
  have r1: "?r1 = (?c1, ?f1)"
    using M1(1) by (simp add: prod_eq_iff)
  let ?r = "fold (\<lambda>col. fold (markRowFlag n col) rows) cols (?c1, ?f1)"
  have e: "fold (\<lambda>col. fold (markRowFlag n col) rows) (col # cols) (c, f) = ?r"
    by (simp add: r1 [symmetric])
  from Cons.IH [of ?c1 ?f1] obtain M where
    M: "fst ?r = ?c1\<lparr>marked := M\<rparr>" "length M = length M1"
      "\<And>i. length (M ! i) = length (M1 ! i)"
      "\<And>i j. i < length M1 \<Longrightarrow> j < length (M1 ! i) \<Longrightarrow>
          M ! i ! j = (M1 ! i ! j \<or> (i \<in> set cols \<and> j \<in> set rows \<and> grid c ! i ! j = n))"
      "snd ?r = (?f1 \<or> (\<exists>i \<in> set cols. \<exists>j \<in> set rows. grid c ! i ! j = n))"
    by auto
  have "fst ?r = c\<lparr>marked := M\<rparr>"
    using M(1) by simp
  moreover have "length M = length (marked c)"
    using M(2) M1(2) by simp
  moreover have "\<forall>i. length (M ! i) = length (marked c ! i)"
    using M(3) M1(3) by simp
  moreover have "\<forall>i j. i < length (marked c) \<longrightarrow> j < length (marked c ! i) \<longrightarrow>
          M ! i ! j =
            (marked c ! i ! j \<or> (i \<in> set (col # cols) \<and> j \<in> set rows \<and> grid c ! i ! j = n))"
  proof (intro allI impI)
    fix i j assume ij: "i < length (marked c)" "j < length (marked c ! i)"
    then have "M ! i ! j = (M1 ! i ! j \<or> (i \<in> set cols \<and> j \<in> set rows \<and> grid c ! i ! j = n))"
      by (intro M(4)) (simp_all only: M1(2,3))
    then show "M ! i ! j =
            (marked c ! i ! j \<or> (i \<in> set (col # cols) \<and> j \<in> set rows \<and> grid c ! i ! j = n))"
      unfolding M1(4) [OF ij] by auto
  qed
  moreover have "snd ?r = (f \<or> (\<exists>i \<in> set (col # cols). \<exists>j \<in> set rows. grid c ! i ! j = n))"
  proof -
    have "snd ?r = (?f1 \<or> (\<exists>i \<in> set cols. \<exists>j \<in> set rows. grid c ! i ! j = n))"
      by (rule M(5))
    also have "\<dots> = (f \<or> (\<exists>i \<in> set (col # cols). \<exists>j \<in> set rows. grid c ! i ! j = n))"
      unfolding M1(5) by auto
    finally show ?thesis .
  qed
  ultimately show ?case
    unfolding e by blast
qed

lemma updateFound_find:
  "find P xs = Some c \<Longrightarrow>
   \<exists>k<length xs. xs ! k = c \<and> P c \<and> (\<forall>j<k. \<not> P (xs ! j)) \<and> updateFound P y xs = xs[k := y]"
proof (induction xs)
  case Nil
  then show ?case by simp
next
  case (Cons x xs)
  show ?case
  proof (cases "P x")
    case True
    with Cons.prems have "x = c" by simp
    with True show ?thesis by (intro exI [of _ 0]) simp
  next
    case False
    with Cons.prems have "find P xs = Some c" by simp
    from Cons.IH [OF this] obtain k where
      k: "k < length xs" "xs ! k = c" "P c" "\<forall>j<k. \<not> P (xs ! j)" "updateFound P y xs = xs[k := y]"
      by blast
    have "\<forall>j<Suc k. \<not> P ((x # xs) ! j)"
      using False k(4) by (auto simp: less_Suc_eq_0_disj)
    with k False show ?thesis
      by (intro exI [of _ "Suc k"]) simp
  qed
qed

lemma matrix_eqI:
  assumes "length M = 5" "length N = 5"
    and "\<And>i. i < 5 \<Longrightarrow> length (M ! i) = 5" "\<And>i. i < 5 \<Longrightarrow> length (N ! i) = 5"
    and "\<And>i j. i < 5 \<Longrightarrow> j < 5 \<Longrightarrow> M ! i ! j = N ! i ! j"
  shows "M = (N :: bool list list)"
proof (rule nth_equalityI)
  show "length M = length N" using assms(1,2) by simp
next
  fix i assume "i < length M"
  then have i: "i < 5" using assms(1) by simp
  show "M ! i = N ! i"
  proof (rule nth_equalityI)
    show "length (M ! i) = length (N ! i)" using assms(3,4) i by simp
  next
    fix j assume "j < length (M ! i)"
    then have "j < 5" using assms(3) i by simp
    with i show "M ! i ! j = N ! i ! j" by (rule assms(5))
  qed
qed


lemma wfCard_nth:
  "wfCard c \<Longrightarrow> length (marked c) = 5 \<and> (\<forall>i<5. length (marked c ! i) = 5)"
  by (simp add: wfCard_def list_all_length)

lemma markNumberRoute_not_marked:
  assumes "doc srv = Some s" "markNumberOnPlayerCard p n s = (False, s1)"
  shows "\<exists>msg. markNumberRoute p n now srv = (Response 400 msg, srv)"
  using assms by (simp add: markNumberRoute_def)

lemma recordWinners_bingoCards [simp]:
  "bingoCards (recordWinners now ws game) = bingoCards game"
  by (simp add: recordWinners_def)

text \<open>
  Claim C8. Let the player own a card of the 5 by 5 shape. \<open>markNumberOnPlayerCard\<close>
  replaces that card, at its place in \<open>bingoCards\<close>, by the same card with a new marking
  matrix, in which a cell is marked exactly when it was marked before or its grid value
  is the number; every other card and every other field of the session stay as they
  were. It returns true exactly when some cell of the card holds the number, and when
  it returns false the session is unchanged. For the route \<open>mark-number\<close> on an active or
  paused session in manual marking mode, a player of the roster and a number of 1..75
  that has been called: when the number is on the card, the route answers 200 and
  stores the session with exactly that card replaced, after winner detection on it;
  when the number is not on the card, it answers 400 \<open>Number not found on your card\<close> and
  stores nothing.
\<close>

theorem markNumberOnPlayerCard_cells:
  assumes "getPlayerCard p s = Some c" and "wfCard c"
  shows "\<exists>k c1. k < length (bingoCards s) \<and> bingoCards s ! k = c \<and>
           snd (markNumberOnPlayerCard p n s) = s\<lparr>bingoCards := (bingoCards s)[k := c1]\<rparr> \<and>
           c1 = c\<lparr>marked := marked c1\<rparr> \<and> wfCard c1 \<and>
           (\<forall>col<5. \<forall>row<5.
              marked c1 ! col ! row = (marked c ! col ! row \<or> grid c ! col ! row = n)) \<and>
           fst (markNumberOnPlayerCard p n s) = (\<exists>col<5. \<exists>row<5. grid c ! col ! row = n) \<and>
           (\<not> fst (markNumberOnPlayerCard p n s) \<longrightarrow>
              snd (markNumberOnPlayerCard p n s) = s \<and>
              (\<forall>srv now. doc srv = Some s \<longrightarrow>
                 (\<exists>msg. markNumberRoute p n now srv = (Response 400 msg, srv)))) \<and>
           (doc srv = Some s \<and> (status s = Active \<or> status s = Paused) \<and>
            markingMode s = Manual \<and> p \<in> set (players s) \<and>
            n \<in> set (map number (calledNumbers s)) \<and> 1 \<le> n \<and> n \<le> 75 \<longrightarrow>
              (if \<exists>col<5. \<exists>row<5. grid c ! col ! row = n
               then markNumberRoute p n now srv =
                      (Response 200 ''Number marked successfully'',
                       srv\<lparr>doc := Some
                         (recordWinners now
                            (checkForWinners Plain now (s\<lparr>bingoCards := (bingoCards s)[k := c1]\<rparr>))
                            (s\<lparr>bingoCards := (bingoCards s)[k := c1]\<rparr>))\<rparr>) \<and>
                    map_option bingoCards (doc (snd (markNumberRoute p n now srv))) =
                      Some ((bingoCards s)[k := c1])
               else markNumberRoute p n now srv =
                      (Response 400 ''Number not found on your card'', srv)))"
proof -
  let ?r = "fold (\<lambda>col. fold (markRowFlag n col) [0..<5]) [0..<5] (c, False)"
  from markNumber_loops [of n "[0..<5]" "[0..<5]" c False] obtain M where
    M: "fst ?r = c\<lparr>marked := M\<rparr>" "length M = length (marked c)"
      "\<And>i. length (M ! i) = length (marked c ! i)"
      "\<And>i j. i < length (marked c) \<Longrightarrow> j < length (marked c ! i) \<Longrightarrow>
          M ! i ! j =
            (marked c ! i ! j \<or> (i \<in> set [0..<5] \<and> j \<in> set [0..<5] \<and> grid c ! i ! j = n))"
      "snd ?r = (False \<or> (\<exists>i \<in> set [0..<5]. \<exists>j \<in> set [0..<5]. grid c ! i ! j = n))"
    by blast
  let ?c1 = "c\<lparr>marked := M\<rparr>"
  from wfCard_nth [OF assms(2)] have wf: "length (marked c) = 5" "\<And>i. i < 5 \<Longrightarrow> length (marked c ! i) = 5"
    by simp_all
  from updateFound_find [of "\<lambda>c. player c = p" "bingoCards s" c ?c1] assms(1)
  obtain k where k: "k < length (bingoCards s)" "bingoCards s ! k = c"
    "updateFound (\<lambda>c. player c = p) ?c1 (bingoCards s) = (bingoCards s)[k := ?c1]"
    by (auto simp: getPlayerCard_def)
  let ?s1 = "s\<lparr>bingoCards := (bingoCards s)[k := ?c1]\<rparr>"
  have m: "markNumberOnPlayerCard p n s = (snd ?r, ?s1)"
    using assms(1) k(3) M(1) by (simp add: markNumberOnPlayerCard_def Let_def)
  have found: "snd ?r = (\<exists>col<5. \<exists>row<5. grid c ! col ! row = n)"
    unfolding M(5) by (simp add: Bex_def)
  have cells: "M ! col ! row = (marked c ! col ! row \<or> grid c ! col ! row = n)"
    if "col < 5" "row < 5" for col row
    using M(4) [of col row] that wf by simp
  have wf1: "wfCard ?c1"
    using assms(2) M(2,3) wf by (simp add: wfCard_def list_all_length)
  have same: "?s1 = s" if "\<not> snd ?r"
  proof -
    from that found have no: "\<And>col row. col < 5 \<Longrightarrow> row < 5 \<Longrightarrow> grid c ! col ! row \<noteq> n"
      by blast
    have "M = marked c"
    proof (rule matrix_eqI)
      show "length M = 5" using M(2) wf(1) by simp
      show "length (marked c) = 5" by (rule wf(1))
      show "\<And>i. i < 5 \<Longrightarrow> length (M ! i) = 5" using M(3) wf(2) by simp
      show "\<And>i. i < 5 \<Longrightarrow> length (marked c ! i) = 5" by (rule wf(2))
      show "\<And>i j. i < 5 \<Longrightarrow> j < 5 \<Longrightarrow> M ! i ! j = marked c ! i ! j"
        using cells no by simp
    qed
    then have "?c1 = bingoCards s ! k" using k(2) by simp
    then have "(bingoCards s)[k := ?c1] = bingoCards s"
      by (simp only: list_update_id)
    then show ?thesis by simp
  qed
  have route: "\<forall>srv now. doc srv = Some s \<longrightarrow>
      (\<exists>msg. markNumberRoute p n now srv = (Response 400 msg, srv))" if "\<not> snd ?r"
    using m that by (auto intro: markNumberRoute_not_marked)
  have drawn: "if \<exists>col<5. \<exists>row<5. grid c ! col ! row = n
       then markNumberRoute p n now srv =
              (Response 200 ''Number marked successfully'',
               srv\<lparr>doc := Some (recordWinners now (checkForWinners Plain now ?s1) ?s1)\<rparr>) \<and>
            map_option bingoCards (doc (snd (markNumberRoute p n now srv))) =
              Some ((bingoCards s)[k := ?c1])
       else markNumberRoute p n now srv = (Response 400 ''Number not found on your card'', srv)"
    if pre: "doc srv = Some s \<and> (status s = Active \<or> status s = Paused) \<and>
            markingMode s = Manual \<and> p \<in> set (players s) \<and>
            n \<in> set (map number (calledNumbers s)) \<and> 1 \<le> n \<and> n \<le> 75"
  proof -
    from pre have guards: "doc srv = Some s" "\<not> (status s \<noteq> Active \<and> status s \<noteq> Paused)"
      "markingMode s = Manual" "list_ex (\<lambda>q. q = p) (players s)"
      "\<not> (n = 0 \<or> n < 1 \<or> n > 75)" "n \<in> set (map number (calledNumbers s))"
      by (auto simp: list_ex_iff)
    then have r: "markNumberRoute p n now srv =
        (if \<not> snd ?r then (Response 400 ''Number not found on your card'', srv)
         else (Response 200 ''Number marked successfully'',
               srv\<lparr>doc := Some (recordWinners now (checkForWinners Plain now ?s1) ?s1)\<rparr>))"
      by (simp add: markNumberRoute_def m Let_def)
    show ?thesis
      unfolding r found [symmetric] by simp
  qed
  show ?thesis
    using k(1,2) m wf1 cells found same route drawn
    by (intro exI [of _ k] exI [of _ ?c1]) simp
qed

lemma all_less_5: "(\<forall>i<5. P i) = (P (0::nat) \<and> P 1 \<and> P 2 \<and> P 3 \<and> P 4)"
proof
  assume "\<forall>i<5. P i"
  then show "P 0 \<and> P 1 \<and> P 2 \<and> P 3 \<and> P 4" by simp
next
  assume b: "P 0 \<and> P 1 \<and> P 2 \<and> P 3 \<and> P 4"
  show "\<forall>i<5. P i"
  proof (intro allI impI)
    fix i :: nat assume "i < 5"
    then have "i = 0 \<or> i = 1 \<or> i = 2 \<or> i = 3 \<or> i = 4" by arith
    with b show "P i" by auto
  qed
qed

lemma freshMarked_shape:
  "length freshMarked = 5 \<and> list_all (\<lambda>column. length column = 5) freshMarked"
  by (simp add: freshMarked_def list_all_length nth_list_update)

lemma exampleCard1_wf: "wfCard exampleCard1"
  using freshMarked_shape by (simp add: wfCard_def exampleCard1_def)

lemma activeGame_card1: "getPlayerCard 1 activeGame = Some exampleCard1"
  by (simp add: getPlayerCard_def activeGame_def readyGame_def exampleGame_def exampleCard1_def)

lemma exampleCard1_without_2: "\<not> (\<exists>col<5. \<exists>row<5. grid exampleCard1 ! col ! row = 2)"
  by (simp add: all_less_5 exampleCard1_def)

lemma exhaustedGame_card1: "getPlayerCard 1 exhaustedGame = Some exampleCard1"
  by (simp add: getPlayerCard_def exhaustedGame_def activeGame_def readyGame_def exampleGame_def
      exampleCard1_def)

lemma exhaustedGame_manual:
  "markingMode exhaustedGame = Manual" "players exhaustedGame = [1, 2]"
  by (simp_all add: exhaustedGame_def activeGame_def readyGame_def exampleGame_def)

lemma exampleCard1_cells:
  "grid exampleCard1 ! 1 ! 2 = 22" "grid exampleCard1 ! 0 ! 0 = 10"
  "\<not> marked exampleCard1 ! 1 ! 2" "\<not> marked exampleCard1 ! 0 ! 0" "marked exampleCard1 ! 2 ! 2"
  by (simp_all add: exampleCard1_def freshMarked_def)

theorem markNumberOnPlayerCard_cells_witness:
  "getPlayerCard 1 exhaustedGame = Some exampleCard1 \<and> wfCard exampleCard1 \<and>
   doc (serverWith exhaustedGame) = Some exhaustedGame \<and> status exhaustedGame = Active \<and>
   markingMode exhaustedGame = Manual \<and> 1 \<in> set (players exhaustedGame) \<and>
   22 \<in> set (map number (calledNumbers exhaustedGame)) \<and>
   2 \<in> set (map number (calledNumbers exhaustedGame)) \<and>
   grid exampleCard1 ! 1 ! 2 = 22 \<and> 2 \<notin> set (concat (grid exampleCard1)) \<and>
   fst (markNumberRoute 1 22 9 (serverWith exhaustedGame)) =
     Response 200 ''Number marked successfully'' \<and>
   (\<exists>k c1. k < length (bingoCards exhaustedGame) \<and>
      bingoCards exhaustedGame ! k = exampleCard1 \<and>
      map_option bingoCards (doc (snd (markNumberRoute 1 22 9 (serverWith exhaustedGame)))) =
        Some ((bingoCards exhaustedGame)[k := c1]) \<and>
      c1 = exampleCard1\<lparr>marked := marked c1\<rparr> \<and>
      marked c1 ! 1 ! 2 \<and> \<not> marked c1 ! 0 ! 0 \<and> marked c1 ! 2 ! 2) \<and>
   \<not> fst (markNumberOnPlayerCard 1 2 exhaustedGame) \<and>
   markNumberRoute 1 2 9 (serverWith exhaustedGame) =
     (Response 400 ''Number not found on your card'', serverWith exhaustedGame)"
proof -
  let ?srv = "serverWith exhaustedGame"
  note t22 = markNumberOnPlayerCard_cells [OF exhaustedGame_card1 exampleCard1_wf, of 22 ?srv 9]
  note t2 = markNumberOnPlayerCard_cells [OF exhaustedGame_card1 exampleCard1_wf, of 2 ?srv 9]
  have d: "doc ?srv = Some exhaustedGame"
    by (simp add: serverWith_def)
  have c22: "22 \<in> set (map number (calledNumbers exhaustedGame))"
    and called2: "2 \<in> set (map number (calledNumbers exhaustedGame))"
    using exhaustedGame_called by auto
  have "(1::nat) < 5 \<and> (2::nat) < 5 \<and> grid exampleCard1 ! 1 ! 2 = 22"
    using exampleCard1_cells(1) by simp
  then have on22: "\<exists>col<5. \<exists>row<5. grid exampleCard1 ! col ! row = 22"
    by blast
  have off2: "2 \<notin> set (concat (grid exampleCard1))"
    by (simp add: exampleCard1_def)
  have pre22: "doc ?srv = Some exhaustedGame \<and>
      (status exhaustedGame = Active \<or> status exhaustedGame = Paused) \<and>
      markingMode exhaustedGame = Manual \<and> 1 \<in> set (players exhaustedGame) \<and>
      22 \<in> set (map number (calledNumbers exhaustedGame)) \<and> (1::int) \<le> 22 \<and> (22::int) \<le> 75"
    using d c22 by (simp add: example_fields exhaustedGame_manual)
  have pre2: "doc ?srv = Some exhaustedGame \<and>
      (status exhaustedGame = Active \<or> status exhaustedGame = Paused) \<and>
      markingMode exhaustedGame = Manual \<and> 1 \<in> set (players exhaustedGame) \<and>
      2 \<in> set (map number (calledNumbers exhaustedGame)) \<and> (1::int) \<le> 2 \<and> (2::int) \<le> 75"
    using d called2 by (simp add: example_fields exhaustedGame_manual)
  from t22 obtain k c1 where k: "k < length (bingoCards exhaustedGame)"
      "bingoCards exhaustedGame ! k = exampleCard1" "c1 = exampleCard1\<lparr>marked := marked c1\<rparr>"
    and cells: "\<forall>col<5. \<forall>row<5.
        marked c1 ! col ! row = (marked exampleCard1 ! col ! row \<or> grid exampleCard1 ! col ! row = 22)"
    and r22: "doc ?srv = Some exhaustedGame \<and>
      (status exhaustedGame = Active \<or> status exhaustedGame = Paused) \<and>
      markingMode exhaustedGame = Manual \<and> 1 \<in> set (players exhaustedGame) \<and>
      22 \<in> set (map number (calledNumbers exhaustedGame)) \<and> (1::int) \<le> 22 \<and> (22::int) \<le> 75 \<longrightarrow>
      (if \<exists>col<5. \<exists>row<5. grid exampleCard1 ! col ! row = 22
       then markNumberRoute 1 22 9 ?srv =
              (Response 200 ''Number marked successfully'',
               ?srv\<lparr>doc := Some
                 (recordWinners 9
                    (checkForWinners Plain 9
                       (exhaustedGame\<lparr>bingoCards := (bingoCards exhaustedGame)[k := c1]\<rparr>))
                    (exhaustedGame\<lparr>bingoCards := (bingoCards exhaustedGame)[k := c1]\<rparr>))\<rparr>) \<and>
            map_option bingoCards (doc (snd (markNumberRoute 1 22 9 ?srv))) =
              Some ((bingoCards exhaustedGame)[k := c1])
       else markNumberRoute 1 22 9 ?srv = (Response 400 ''Number not found on your card'', ?srv))"
    by blast
  from r22 pre22 on22 have ok: "fst (markNumberRoute 1 22 9 ?srv) =
      Response 200 ''Number marked successfully''"
    "map_option bingoCards (doc (snd (markNumberRoute 1 22 9 ?srv))) =
       Some ((bingoCards exhaustedGame)[k := c1])"
    by simp_all
  from cells have
    "marked c1 ! 1 ! 2 = (marked exampleCard1 ! 1 ! 2 \<or> grid exampleCard1 ! 1 ! 2 = 22)"
    "marked c1 ! 0 ! 0 = (marked exampleCard1 ! 0 ! 0 \<or> grid exampleCard1 ! 0 ! 0 = 22)"
    "marked c1 ! 2 ! 2 = (marked exampleCard1 ! 2 ! 2 \<or> grid exampleCard1 ! 2 ! 2 = 22)"
    by simp_all
  with exampleCard1_cells have m: "marked c1 ! 1 ! 2" "\<not> marked c1 ! 0 ! 0" "marked c1 ! 2 ! 2"
    by simp_all
  have a: "\<exists>k c1. k < length (bingoCards exhaustedGame) \<and>
      bingoCards exhaustedGame ! k = exampleCard1 \<and>
      map_option bingoCards (doc (snd (markNumberRoute 1 22 9 ?srv))) =
        Some ((bingoCards exhaustedGame)[k := c1]) \<and>
      c1 = exampleCard1\<lparr>marked := marked c1\<rparr> \<and>
      marked c1 ! 1 ! 2 \<and> \<not> marked c1 ! 0 ! 0 \<and> marked c1 ! 2 ! 2"
    using k ok(2) m by (intro exI [of _ k] exI [of _ c1] conjI)
  have no2: "\<not> (\<exists>col<5. \<exists>row<5. grid exampleCard1 ! col ! row = 2)"
    by (rule exampleCard1_without_2)
  from t2 no2 have f: "\<not> fst (markNumberOnPlayerCard 1 2 exhaustedGame)"
    by blast
  from t2 obtain k2 c2 where r2: "doc ?srv = Some exhaustedGame \<and>
      (status exhaustedGame = Active \<or> status exhaustedGame = Paused) \<and>
      markingMode exhaustedGame = Manual \<and> 1 \<in> set (players exhaustedGame) \<and>
      2 \<in> set (map number (calledNumbers exhaustedGame)) \<and> (1::int) \<le> 2 \<and> (2::int) \<le> 75 \<longrightarrow>
      (if \<exists>col<5. \<exists>row<5. grid exampleCard1 ! col ! row = 2
       then markNumberRoute 1 2 9 ?srv =
              (Response 200 ''Number marked successfully'',
               ?srv\<lparr>doc := Some
                 (recordWinners 9
                    (checkForWinners Plain 9
                       (exhaustedGame\<lparr>bingoCards := (bingoCards exhaustedGame)[k2 := c2]\<rparr>))
                    (exhaustedGame\<lparr>bingoCards := (bingoCards exhaustedGame)[k2 := c2]\<rparr>))\<rparr>) \<and>
            map_option bingoCards (doc (snd (markNumberRoute 1 2 9 ?srv))) =
              Some ((bingoCards exhaustedGame)[k2 := c2])
       else markNumberRoute 1 2 9 ?srv = (Response 400 ''Number not found on your card'', ?srv))"
    by blast
  from r2 pre2 have "if \<exists>col<5. \<exists>row<5. grid exampleCard1 ! col ! row = 2
       then markNumberRoute 1 2 9 ?srv =
              (Response 200 ''Number marked successfully'',
               ?srv\<lparr>doc := Some
                 (recordWinners 9
                    (checkForWinners Plain 9
                       (exhaustedGame\<lparr>bingoCards := (bingoCards exhaustedGame)[k2 := c2]\<rparr>))
                    (exhaustedGame\<lparr>bingoCards := (bingoCards exhaustedGame)[k2 := c2]\<rparr>))\<rparr>) \<and>
            map_option bingoCards (doc (snd (markNumberRoute 1 2 9 ?srv))) =
              Some ((bingoCards exhaustedGame)[k2 := c2])
       else markNumberRoute 1 2 9 ?srv = (Response 400 ''Number not found on your card'', ?srv)"
    by (rule mp)
  then have b: "markNumberRoute 1 2 9 ?srv =
      (Response 400 ''Number not found on your card'', ?srv)"
    by (simp only: if_not_P [OF no2])
  have st: "status exhaustedGame = Active" "markingMode exhaustedGame = Manual"
    "1 \<in> set (players exhaustedGame)"
    by (simp_all add: example_fields exhaustedGame_manual)
  from exhaustedGame_card1 exampleCard1_wf d st c22 called2 exampleCard1_cells(1) off2 ok(1) a f b
  show ?thesis
    by (intro conjI)
qed

subsection \<open>The routes establish the invariants\<close>

lemma generateDeterministicBingoCard_shape:
  "length (generateDeterministicBingoCard cardNum) = 5 \<and>
   list_all (\<lambda>column. length column = 5) (generateDeterministicBingoCard cardNum)"
proof -
  let ?g = "generateDeterministicBingoCard cardNum"
  have len: "length ?g = 5"
    using generateColumns_nth [of 0 "[0..<5]" cardNum]
    by (simp add: generateDeterministicBingoCard_def)
  have "length (?g ! col) = 5" if "col < 5" for col
  proof -
    from that have c: "col < length [0..<5]" by simp
    from generateColumns_nth [OF c, of cardNum] obtain seed1 where
      "generateColumns [0..<5] cardNum ! col = fst (generateColumn ([0..<5] ! col) seed1)"
      by blast
    moreover have "[0..<5] ! col = col" using that by simp
    ultimately have "?g ! col = fst (generateColumn col seed1)"
      by (simp add: generateDeterministicBingoCard_def)
    with generateColumn_props [OF that that, of seed1] show ?thesis by simp
  qed
  with len show ?thesis by (simp add: list_all_length)
qed

lemma selectCardRoute_result:
  assumes "doc srv = Some game"
  shows "snd (selectCardRoute userId cardNum srv) = srv \<or>
         getPlayerCard userId game = None \<and>
         snd (selectCardRoute userId cardNum srv) =
           srv\<lparr>doc := Some (addPlayerCard userId cardNum game)\<rparr>"
  using assms by (simp add: selectCardRoute_def)

lemma selectCardRoute_keeps:
  assumes "doc srv = Some game"
    and "distinct (map player (bingoCards game))" and "list_all wfCard (bingoCards game)"
    and "doc (snd (selectCardRoute userId cardNum srv)) = Some game1"
  shows "distinct (map player (bingoCards game1)) \<and> list_all wfCard (bingoCards game1) \<and>
         winners game1 = winners game"
  using selectCardRoute_result [OF assms(1), of userId cardNum]
proof
  assume "snd (selectCardRoute userId cardNum srv) = srv"
  with assms show ?thesis by simp
next
  assume a: "getPlayerCard userId game = None \<and>
         snd (selectCardRoute userId cardNum srv) =
           srv\<lparr>doc := Some (addPlayerCard userId cardNum game)\<rparr>"
  then have fresh: "userId \<notin> set (map player (bingoCards game))"
    by (auto simp: getPlayerCard_def find_None_iff)
  from a assms(4) have "game1 = addPlayerCard userId cardNum game" by simp
  with assms(2,3) fresh generateDeterministicBingoCard_shape [of cardNum] freshMarked_shape
  show ?thesis
    by (simp add: addPlayerCard_def wfCard_def)
qed

lemma submitWordRoute_result:
  assumes "l_doc srv = Some game"
  shows "snd (submitWordRoute userId w srv) = srv \<or>
         snd (submitWordRoute userId w srv) =
           srv\<lparr>l_doc := Some
             (game\<lparr>playerWords :=
                filter (\<lambda>pw. pw_player pw \<noteq> userId) (playerWords game) @
                [\<lparr>pw_player = userId, word = toUpperCase w, matchedLetters = [],
                  isWinner = False\<rparr>]\<rparr>)\<rparr>"
  using assms by (simp add: submitWordRoute_def Let_def)

lemma submitWordRoute_keeps:
  assumes "l_doc srv = Some game" and "letterInv game" and "l_winners game = []"
    and "l_doc (snd (submitWordRoute userId w srv)) = Some game1"
  shows "letterInv game1 \<and> l_winners game1 = []"
  using submitWordRoute_result [OF assms(1), of userId w]
proof
  assume "snd (submitWordRoute userId w srv) = srv"
  with assms show ?thesis by simp
next
  assume "snd (submitWordRoute userId w srv) =
      srv\<lparr>l_doc := Some
        (game\<lparr>playerWords :=
           filter (\<lambda>pw. pw_player pw \<noteq> userId) (playerWords game) @
           [\<lparr>pw_player = userId, word = toUpperCase w, matchedLetters = [],
             isWinner = False\<rparr>]\<rparr>)\<rparr>"
  with assms(4) have g1: "game1 = game\<lparr>playerWords :=
           filter (\<lambda>pw. pw_player pw \<noteq> userId) (playerWords game) @
           [\<lparr>pw_player = userId, word = toUpperCase w, matchedLetters = [],
             isWinner = False\<rparr>]\<rparr>"
    by simp
  from assms(2) have "distinct (map pw_player (playerWords game))"
    by (simp add: letterInv_def)
  then have "distinct (map pw_player (filter (\<lambda>pw. pw_player pw \<noteq> userId) (playerWords game)))"
    by (rule distinct_map_filter)
  with assms(3) show ?thesis
    by (auto simp: g1 letterInv_def list_all_iff)
qed

lemma drawLetter_letterInv:
  assumes "letterInv t"
  shows "letterInv (snd (drawLetter e now t))"
proof (cases "remainingLetters t = []")
  case True
  with assms show ?thesis by (simp add: drawLetter_None)
next
  case False
  from drawLetter_Some [OF False, of e now] obtain i where
    d: "drawLetter e now t =
             (Some (remainingLetters t ! i),
              letterCheckForWinners (remainingLetters t ! i) now
                (t\<lparr>remainingLetters :=
                     take i (remainingLetters t) @ drop (Suc i) (remainingLetters t),
                   drawnLetters :=
                     drawnLetters t @ [\<lparr>letter = remainingLetters t ! i, drawnAt = now\<rparr>]\<rparr>))"
    by blast
  from assms have "letterInv
                (t\<lparr>remainingLetters :=
                     take i (remainingLetters t) @ drop (Suc i) (remainingLetters t),
                   drawnLetters :=
                     drawnLetters t @ [\<lparr>letter = remainingLetters t ! i, drawnAt = now\<rparr>]\<rparr>)"
    by (simp add: letterInv_def)
  then show ?thesis
    unfolding d by (simp add: letterCheckForWinners_letterInv)
qed

lemma toUpperCase_examples:
  "toUpperCase ''ABC'' = ''ABC''" "toUpperCase ''CAB'' = ''CAB''"
  by (simp_all add: toUpperCase_def)

lemma letterPlaying_reached:
  "snd (letterStartRoute 1
     (snd (submitWordRoute 2 ''CAB''
        (snd (submitWordRoute 1 ''ABC'' (letterServerWith letterReady)))))) =
   letterServerWith (letterPlaying ''ABC'' ''CAB'')"
  by (simp add: letterStartRoute_def submitWordRoute_def letterServerWith_def letterReady_def
      letterPlaying_def isWordAvailable_def initializeLetters_def toUpperCase_examples Let_def)

end
